theory Spec2Isabelle
  imports Main "HOL-Library.Multiset" "HOL-Library.AList" "HOL-Library.Sublist"
begin

section \<open>Release tracks and errors\<close>

text \<open>
  Modelled from the spec: \<open>base.ReleaseTrack\<close> is declared in calliope's base module, which
  is not part of command_loading.py. A release track is a value of a small closed
  enumeration with a stable string identifier, compared by equality and set membership
  only; here a track is the value that carries this identifier, \<open>track_id\<close> being the
  attribute \<open>id\<close> the source reads.
\<close>

datatype ReleaseTrack = ReleaseTrack (track_id: string)

text \<open>
  The exceptions of the module, as values, each with the message the source formats. One
  message is kept as its format arguments instead of the rendered string:
  \<open>LayoutException_tracks duplicates impl_file\<close> is the LayoutException
  \<^verbatim>\<open>Multiple definitions for release tracks [{0}] for element: [{1}]\<close>, whose first
  argument joins \<open>str(d)\<close> over the set \<open>duplicates\<close> in the iteration order of a Python
  set, which is not determined. \<open>AttributeError\<close>, \<open>TypeError\<close> and \<open>ValueError\<close> are
  the exceptions of the Python runtime that the source can run into; \<open>ConstructorError\<close>
  is the one of the YAML library.
\<close>

datatype error =
    LayoutException string
  | LayoutException_tracks "ReleaseTrack set" string
  | ReleaseTrackNotImplementedException string
  | AttributeError
  | TypeError
  | ValueError
  | ConstructorError

section \<open>Release track resolution\<close>

text \<open>
  An implementation is a pair of a producer (a zero-argument function, opaque here, type
  \<open>'p\<close>) and the set of release tracks it is valid for. \<open>ValidReleaseTracks()\<close> may also
  be \<open>None\<close>; the source only ever tests it with \<open>not valid_tracks\<close> before using it as a
  set, so \<open>None\<close> and the empty set are the same value \<open>{}\<close> here.
\<close>

type_synonym 'p implementation = "'p \<times> ReleaseTrack set"

text \<open>
  The loop of lines 458-472: \<open>implemented_release_tracks\<close> is the accumulator; the
  result is the exception the loop raises, if any.
\<close>

fun check_conflicts ::
  "string \<Rightarrow> 'p implementation list \<Rightarrow> ReleaseTrack set \<Rightarrow> error option" where
  "check_conflicts impl_file [] implemented_release_tracks = None"
| "check_conflicts impl_file ((impl, valid_tracks) # rest) implemented_release_tracks =
     (if valid_tracks = {} then
        Some (LayoutException (''Multiple implementations defined for element: ['' @ impl_file
                @ '']. Each must explicitly declare valid release tracks.''))
      else
        (let duplicates = implemented_release_tracks \<inter> valid_tracks in
         if duplicates \<noteq> {} then Some (LayoutException_tracks duplicates impl_file)
         else check_conflicts impl_file rest (implemented_release_tracks \<union> valid_tracks)))"

text \<open>The message of both \<open>ReleaseTrackNotImplementedException\<close>s (lines 453-455, 478-480).\<close>

definition no_implementation :: "ReleaseTrack \<Rightarrow> string \<Rightarrow> string" where
  "no_implementation expected_track impl_file =
     ''No implementation for release track ['' @ track_id expected_track
       @ ''] for element: ['' @ impl_file @ '']''"

definition ExtractReleaseTrackImplementation ::
  "string \<Rightarrow> ReleaseTrack \<Rightarrow> 'p implementation list \<Rightarrow> error + 'p" where
  "ExtractReleaseTrackImplementation impl_file expected_track implementations =
     (if length implementations = 1 then
        (case implementations ! 0 of (impl, valid_tracks) \<Rightarrow>
           if valid_tracks = {} \<or> expected_track \<in> valid_tracks then Inr impl
           else Inl (ReleaseTrackNotImplementedException (no_implementation expected_track impl_file)))
      else
        (case check_conflicts impl_file implementations {} of
           Some e \<Rightarrow> Inl e
         | None \<Rightarrow>
            (let valid_commands_or_groups =
                   map fst (filter (\<lambda>(impl, valid_tracks). expected_track \<in> valid_tracks)
                              implementations)
             in if length valid_commands_or_groups \<noteq> 1 then
                  Inl (ReleaseTrackNotImplementedException (no_implementation expected_track impl_file))
                else Inr (valid_commands_or_groups ! 0))))"

text \<open>How many candidates of a list claim the track \<open>t\<close> (used to state the properties).\<close>

definition claims :: "ReleaseTrack \<Rightarrow> 'p implementation list \<Rightarrow> nat" where
  "claims t impls = length (filter (\<lambda>c. t \<in> snd c) impls)"

section \<open>Implementations of a native module\<close>

text \<open>
  What \<open>_ImplementationsFromModule\<close> looks at in a module attribute: whether it is a type,
  and for a type its \<open>__name__\<close>, whether it is a subclass of \<open>base.Command\<close>, whether it
  is a subclass of \<open>base.Group\<close>, and what \<open>ValidReleaseTracks()\<close> returns.
\<close>

record pyclass =
  cls_name :: string
  is_Command :: bool
  is_Group :: bool
  ValidReleaseTracks :: "ReleaseTrack set"

datatype attribute = TypeObject "pyclass" | OtherObject

text \<open>The collecting loop of lines 349-354, one function for each of the two lists.\<close>

fun collect_commands :: "attribute list \<Rightarrow> pyclass list" where
  "collect_commands [] = []"
| "collect_commands (TypeObject c # rest) =
     (if is_Command c then c # collect_commands rest else collect_commands rest)"
| "collect_commands (OtherObject # rest) = collect_commands rest"

fun collect_groups :: "attribute list \<Rightarrow> pyclass list" where
  "collect_groups [] = []"
| "collect_groups (TypeObject c # rest) =
     (if is_Command c then collect_groups rest
      else if is_Group c then c # collect_groups rest
      else collect_groups rest)"
| "collect_groups (OtherObject # rest) = collect_groups rest"

text \<open>Python's \<open>sep.join(strings)\<close>.\<close>

fun join :: "string \<Rightarrow> string list \<Rightarrow> string" where
  "join sep [] = []"
| "join sep [s] = s"
| "join sep (s # t # rest) = s @ sep @ join sep (t # rest)"

definition ImplementationsFromModule ::
  "string \<Rightarrow> attribute list \<Rightarrow> bool \<Rightarrow> error + pyclass implementation list" where
  "ImplementationsFromModule mod_file module_attributes is_command =
     (let commands = collect_commands module_attributes;
          groups = collect_groups module_attributes
      in if is_command then
           (if groups \<noteq> [] then
              Inl (LayoutException (''You cannot define groups ['' @ join '', '' (map cls_name groups)
                     @ ''] in a command file: ['' @ mod_file @ '']''))
            else if commands = [] then
              Inl (LayoutException (''No commands defined in file: ['' @ mod_file @ '']''))
            else Inr (map (\<lambda>c. (c, ValidReleaseTracks c)) commands))
         else
           (if commands \<noteq> [] then
              Inl (LayoutException (''You cannot define commands ['' @ join '', '' (map cls_name commands)
                     @ ''] in a command group file: ['' @ mod_file @ '']''))
            else if groups = [] then
              Inl (LayoutException (''No command groups defined in file: ['' @ mod_file @ '']''))
            else Inr (map (\<lambda>c. (c, ValidReleaseTracks c)) groups)))"

section \<open>The YAML loader with includes from common data\<close>

subsection \<open>Python values and the operations the loader applies to them\<close>

text \<open>
  The values a parsed YAML document is made of. A dictionary is an association list with
  distinct keys, in insertion order; \<open>AList.update\<close> is \<open>d[k] = v\<close> and \<open>AList.delete\<close>
  removes a key. Nothing in the source depends on the order of a dictionary, and the
  properties below speak about dictionaries through their lookups. Keys are compared as
  values of this type (Python's equality of \<open>True\<close> and \<open>1\<close> as keys is not modelled);
  floats, dates and the other types a YAML scalar can construct to are left out.
\<close>

datatype pyval =
    VNone
  | VBool bool
  | VInt int
  | VStr string
  | VList "pyval list"
  | VDict "(pyval \<times> pyval) list"

type_synonym pydict = "(pyval \<times> pyval) list"

text \<open>Python's truth value, as tested by \<open>if x\<close> and \<open>not x\<close>.\<close>

fun truthy :: "pyval \<Rightarrow> bool" where
  "truthy VNone = False"
| "truthy (VBool b) = b"
| "truthy (VInt i) = (i \<noteq> 0)"
| "truthy (VStr s) = (s \<noteq> [])"
| "truthy (VList xs) = (xs \<noteq> [])"
| "truthy (VDict d) = (d \<noteq> [])"

fun hashable :: "pyval \<Rightarrow> bool" where
  "hashable (VList xs) = False"
| "hashable (VDict d) = False"
| "hashable v = True"


text \<open>\<open>s.split(sep)\<close> for a separator of one character.\<close>

fun py_split :: "char \<Rightarrow> string \<Rightarrow> string list" where
  "py_split sep [] = [[]]"
| "py_split sep (c # cs) =
     (if c = sep then [] # py_split sep cs
      else (case py_split sep cs of [] \<Rightarrow> [[c]] | w # ws \<Rightarrow> (c # w) # ws))"

text \<open>\<open>d.get(k, None)\<close>, also the value of \<open>d.pop(k, None)\<close>.\<close>

definition dict_get :: "pydict \<Rightarrow> pyval \<Rightarrow> pyval" where
  "dict_get d k = (case map_of d k of None \<Rightarrow> VNone | Some v \<Rightarrow> v)"

text \<open>
  \<open>d.update(other)\<close>. For a dictionary, every entry of \<open>other\<close> is written into \<open>d\<close>.
  For another iterable, every element has to be a sequence of length 2, giving a key and a
  value; iterating over a string gives its characters, over a dictionary its keys.
\<close>

definition update_entries :: "pydict \<Rightarrow> pydict \<Rightarrow> pydict" where
  "update_entries d other = fold (\<lambda>(k, v). AList.update k v) other d"

fun key_value_of :: "pyval \<Rightarrow> error + (pyval \<times> pyval)" where
  "key_value_of (VStr s) =
     (case s of [a, b] \<Rightarrow> Inr (VStr [a], VStr [b]) | _ \<Rightarrow> Inl ValueError)"
| "key_value_of (VList xs) =
     (case xs of [a, b] \<Rightarrow> (if hashable a then Inr (a, b) else Inl TypeError)
               | _ \<Rightarrow> Inl ValueError)"
| "key_value_of (VDict d) =
     (case d of [(k1, v1), (k2, v2)] \<Rightarrow> Inr (k1, k2) | _ \<Rightarrow> Inl ValueError)"
| "key_value_of v = Inl TypeError"

fun update_elements :: "pydict \<Rightarrow> pyval list \<Rightarrow> error + pydict" where
  "update_elements d [] = Inr d"
| "update_elements d (x # xs) =
     (case key_value_of x of
        Inl e \<Rightarrow> Inl e
      | Inr (k, v) \<Rightarrow> update_elements (AList.update k v d) xs)"

fun dict_update :: "pydict \<Rightarrow> pyval \<Rightarrow> error + pydict" where
  "dict_update d (VDict other) = Inr (update_entries d other)"
| "dict_update d (VList xs) = update_elements d xs"
| "dict_update d (VStr s) = update_elements d (map (\<lambda>c. VStr [c]) s)"
| "dict_update d v = Inl TypeError"

text \<open>\<open>l.extend(other)\<close>.\<close>

fun list_extend :: "pyval list \<Rightarrow> pyval \<Rightarrow> error + pyval list" where
  "list_extend l (VList xs) = Inr (l @ xs)"
| "list_extend l (VDict d) = Inr (l @ map fst d)"
| "list_extend l (VStr s) = Inr (l @ map (\<lambda>c. VStr [c]) s)"
| "list_extend l v = Inl TypeError"

subsection \<open>The loader class\<close>

text \<open>
  \<open>PlainLoader\<close> is \<open>yaml.Loader\<close>; \<open>CommonLoader impl_path common_data\<close> is the class
  \<open>Loader\<close> that \<open>CreateYamlLoader impl_path\<close> returns, a subclass of \<open>yaml.Loader\<close>
  with \<open>impl_path\<close> and \<open>common_data\<close> in its closure (\<open>common_data\<close> is \<open>VNone\<close> when
  the directory has no \<open>__init__.yaml\<close>).

  Each method takes and returns, next to its result, the list of attribute paths that
  \<open>_GetData\<close> has been called with so far: a record of the references to the common data
  made during a parse, which no result depends on.
\<close>

datatype loader = PlainLoader | CommonLoader string pyval

definition INCLUDE_MACRO :: string where
  "INCLUDE_MACRO = ''!COMMON''"

definition MERGE_MACRO :: string where
  "MERGE_MACRO = ''_COMMON_''"

text \<open>The loop of \<open>_GetData\<close> over the segments of the attribute path (lines 279-285).\<close>

fun GetData_walk :: "string \<Rightarrow> string \<Rightarrow> pyval \<Rightarrow> string list \<Rightarrow> error + pyval" where
  "GetData_walk impl_path attribute_path val [] = Inr val"
| "GetData_walk impl_path attribute_path val (attribute # rest) =
     (case val of
        VDict d \<Rightarrow>
          (let val' = dict_get d (VStr attribute) in
           if \<not> truthy val' then
             Inl (LayoutException (''Command ['' @ impl_path
                    @ ''] references common command data attribute ['' @ attribute @ ''] in ''
                    @ ''path ['' @ attribute_path @ ''] but it does not exist.''))
           else GetData_walk impl_path attribute_path val' rest)
      | _ \<Rightarrow> Inl AttributeError)"

definition GetData :: "string \<Rightarrow> pyval \<Rightarrow> string \<Rightarrow> error + pyval" where
  "GetData impl_path common_data attribute_path =
     (if \<not> truthy common_data then
        Inl (LayoutException (''Command ['' @ impl_path
               @ ''] references common command data but it does not exist.''))
      else GetData_walk impl_path attribute_path common_data
             (py_split CHR ''.'' attribute_path))"

text \<open>
  The loop of \<open>construct_mapping\<close> (lines 253-254):
  \<open>for path in ...: data.update(self._GetData(path))\<close>.
\<close>

fun update_from_paths ::
  "string \<Rightarrow> pyval \<Rightarrow> pydict \<Rightarrow> string list \<Rightarrow> string list \<Rightarrow> (error + pydict) \<times> string list" where
  "update_from_paths impl_path common_data data [] resolved = (Inr data, resolved)"
| "update_from_paths impl_path common_data data (path # paths) resolved =
     (case GetData impl_path common_data path of
        Inl e \<Rightarrow> (Inl e, resolved @ [path])
      | Inr v \<Rightarrow>
         (case dict_update data v of
            Inl e \<Rightarrow> (Inl e, resolved @ [path])
          | Inr data' \<Rightarrow>
              update_from_paths impl_path common_data data' paths (resolved @ [path])))"

text \<open>
  \<open>construct_mapping\<close>: the argument \<open>data\<close> is what \<open>super().construct_mapping\<close>
  returned. Calling \<open>split\<close> on a value that is not a string raises AttributeError.
\<close>

fun construct_mapping ::
  "loader \<Rightarrow> pydict \<Rightarrow> string list \<Rightarrow> (error + pydict) \<times> string list" where
  "construct_mapping PlainLoader data resolved = (Inr data, resolved)"
| "construct_mapping (CommonLoader impl_path common_data) data resolved =
     (let attribute_path = dict_get data (VStr MERGE_MACRO);
          data = AList.delete (VStr MERGE_MACRO) data
      in if truthy attribute_path then
           (case attribute_path of
              VStr s \<Rightarrow>
                update_from_paths impl_path common_data data (py_split CHR '','' s) resolved
            | _ \<Rightarrow> (Inl AttributeError, resolved))
         else (Inr data, resolved))"

text \<open>
  The inner loop of \<open>construct_sequence\<close> (lines 263-264):
  \<open>for path in ...: new_list.extend(self._GetData(path))\<close>.
\<close>

fun extend_from_paths ::
  "string \<Rightarrow> pyval \<Rightarrow> pyval list \<Rightarrow> string list \<Rightarrow> string list
     \<Rightarrow> (error + pyval list) \<times> string list" where
  "extend_from_paths impl_path common_data new_list [] resolved = (Inr new_list, resolved)"
| "extend_from_paths impl_path common_data new_list (path # paths) resolved =
     (case GetData impl_path common_data path of
        Inl e \<Rightarrow> (Inl e, resolved @ [path])
      | Inr v \<Rightarrow>
         (case list_extend new_list v of
            Inl e \<Rightarrow> (Inl e, resolved @ [path])
          | Inr new_list' \<Rightarrow>
              extend_from_paths impl_path common_data new_list' paths (resolved @ [path])))"

text \<open>The outer loop of \<open>construct_sequence\<close> (lines 260-266).\<close>

fun is_merge_item :: "pyval \<Rightarrow> bool" where
  "is_merge_item (VStr s) = prefix MERGE_MACRO s"
| "is_merge_item v = False"

fun merge_item_paths :: "pyval \<Rightarrow> string list" where
  "merge_item_paths (VStr s) = py_split CHR '','' (drop (length MERGE_MACRO) s)"
| "merge_item_paths v = []"

fun sequence_items ::
  "string \<Rightarrow> pyval \<Rightarrow> pyval list \<Rightarrow> pyval list \<Rightarrow> string list
     \<Rightarrow> (error + pyval list) \<times> string list" where
  "sequence_items impl_path common_data [] new_list resolved = (Inr new_list, resolved)"
| "sequence_items impl_path common_data (i # rest) new_list resolved =
     (if is_merge_item i then
        (case extend_from_paths impl_path common_data new_list (merge_item_paths i) resolved of
           (Inl e, resolved') \<Rightarrow> (Inl e, resolved')
         | (Inr new_list', resolved') \<Rightarrow>
             sequence_items impl_path common_data rest new_list' resolved')
      else sequence_items impl_path common_data rest (new_list @ [i]) resolved)"

text \<open>
  \<open>construct_sequence\<close>: the argument \<open>data\<close> is what \<open>super().construct_sequence\<close>
  returned.
\<close>

fun construct_sequence ::
  "loader \<Rightarrow> pyval list \<Rightarrow> string list \<Rightarrow> (error + pyval list) \<times> string list" where
  "construct_sequence PlainLoader data resolved = (Inr data, resolved)"
| "construct_sequence (CommonLoader impl_path common_data) data resolved =
     sequence_items impl_path common_data data [] resolved"

text \<open>
  The constructor of a scalar with an application tag. \<open>Loader.include\<close> is registered for
  \<open>INCLUDE_MACRO\<close> on the class \<open>Loader\<close> only (line 288); \<open>construct_scalar\<close> gives the
  text of the node. A tag without a constructor is the library's ConstructorError.
\<close>

fun construct_tagged ::
  "loader \<Rightarrow> string \<Rightarrow> string \<Rightarrow> string list \<Rightarrow> (error + pyval) \<times> string list" where
  "construct_tagged PlainLoader tag text resolved = (Inl ConstructorError, resolved)"
| "construct_tagged (CommonLoader impl_path common_data) tag text resolved =
     (if tag = INCLUDE_MACRO then
        (GetData impl_path common_data text, resolved @ [text])
      else (Inl ConstructorError, resolved))"

subsection \<open>Constructing a document\<close>

text \<open>
  The YAML library is not part of the repository; what follows models its constructor. A
  document is a tree of nodes. A scalar with a standard tag (\<open>PlainScalar v\<close>) constructs
  to the scalar value \<open>v\<close>; a scalar with an application tag goes to the constructor
  registered for the tag. Anchors, aliases and the library's own merge key are not
  modelled.
\<close>

datatype node =
    PlainScalar pyval
  | TaggedScalar string string
  | SequenceNode "node list"
  | MappingNode "(node \<times> node) list"

text \<open>
  The library constructs a sequence or a mapping in two steps. Its \<open>construct_object\<close>
  makes the empty list or dictionary and hands it out at once, and puts aside a generator
  that will fill it; \<open>construct_document\<close> runs the generators afterwards, in the order
  in which they were put aside, and running one puts aside the generators of the
  collections directly below. So the \<open>construct_sequence\<close> or \<open>construct_mapping\<close> of a
  node runs before those of the nodes below it, on data whose nested collections are still
  empty.

  A \<open>cell\<close> is an item of a collection under construction: a finished value, or the
  collection that the generator with the given number will fill. \<open>current\<close> is the value a
  method finds in a cell when it runs.
\<close>

datatype cell = Done pyval | ListHole nat | DictHole nat

fun current :: "cell \<Rightarrow> pyval" where
  "current (Done v) = v"
| "current (ListHole j) = VList []"
| "current (DictHole j) = VDict []"

type_synonym celldict = "(pyval \<times> cell) list"

datatype generator = SeqGenerator nat "node list" | MapGenerator nat "(node \<times> node) list"

datatype content = ListContent "cell list" | DictContent celldict

text \<open>
  The methods of the loader class as they run during the construction of a document, on
  cells. They are \<open>construct_mapping\<close> and \<open>construct_sequence\<close> above, line by line;
  what they write into a collection from the common data is finished
  (\<open>update_from_paths_cells\<close> and \<open>extend_from_paths_cells\<close> are the two inner loops).
\<close>

fun update_elements_cells :: "celldict \<Rightarrow> pyval list \<Rightarrow> error + celldict" where
  "update_elements_cells d [] = Inr d"
| "update_elements_cells d (x # xs) =
     (case key_value_of x of
        Inl e \<Rightarrow> Inl e
      | Inr (k, v) \<Rightarrow> update_elements_cells (AList.update k (Done v) d) xs)"

fun dict_update_cells :: "celldict \<Rightarrow> pyval \<Rightarrow> error + celldict" where
  "dict_update_cells d (VDict other) = Inr (fold (\<lambda>(k, v). AList.update k (Done v)) other d)"
| "dict_update_cells d (VList xs) = update_elements_cells d xs"
| "dict_update_cells d (VStr s) = update_elements_cells d (map (\<lambda>c. VStr [c]) s)"
| "dict_update_cells d v = Inl TypeError"

fun list_extend_cells :: "cell list \<Rightarrow> pyval \<Rightarrow> error + cell list" where
  "list_extend_cells l (VList xs) = Inr (l @ map Done xs)"
| "list_extend_cells l (VDict d) = Inr (l @ map (\<lambda>kv. Done (fst kv)) d)"
| "list_extend_cells l (VStr s) = Inr (l @ map (\<lambda>c. Done (VStr [c])) s)"
| "list_extend_cells l v = Inl TypeError"

fun update_from_paths_cells ::
  "string \<Rightarrow> pyval \<Rightarrow> celldict \<Rightarrow> string list \<Rightarrow> string list
     \<Rightarrow> (error + celldict) \<times> string list" where
  "update_from_paths_cells impl_path common_data data [] resolved = (Inr data, resolved)"
| "update_from_paths_cells impl_path common_data data (path # paths) resolved =
     (case GetData impl_path common_data path of
        Inl e \<Rightarrow> (Inl e, resolved @ [path])
      | Inr v \<Rightarrow>
         (case dict_update_cells data v of
            Inl e \<Rightarrow> (Inl e, resolved @ [path])
          | Inr data' \<Rightarrow>
              update_from_paths_cells impl_path common_data data' paths (resolved @ [path])))"

fun construct_mapping_cells ::
  "loader \<Rightarrow> celldict \<Rightarrow> string list \<Rightarrow> (error + celldict) \<times> string list" where
  "construct_mapping_cells PlainLoader data resolved = (Inr data, resolved)"
| "construct_mapping_cells (CommonLoader impl_path common_data) data resolved =
     (let attribute_path =
            (case map_of data (VStr MERGE_MACRO) of None \<Rightarrow> VNone | Some c \<Rightarrow> current c);
          data = AList.delete (VStr MERGE_MACRO) data
      in if truthy attribute_path then
           (case attribute_path of
              VStr s \<Rightarrow>
                update_from_paths_cells impl_path common_data data (py_split CHR '','' s)
                  resolved
            | _ \<Rightarrow> (Inl AttributeError, resolved))
         else (Inr data, resolved))"

fun extend_from_paths_cells ::
  "string \<Rightarrow> pyval \<Rightarrow> cell list \<Rightarrow> string list \<Rightarrow> string list
     \<Rightarrow> (error + cell list) \<times> string list" where
  "extend_from_paths_cells impl_path common_data new_list [] resolved = (Inr new_list, resolved)"
| "extend_from_paths_cells impl_path common_data new_list (path # paths) resolved =
     (case GetData impl_path common_data path of
        Inl e \<Rightarrow> (Inl e, resolved @ [path])
      | Inr v \<Rightarrow>
         (case list_extend_cells new_list v of
            Inl e \<Rightarrow> (Inl e, resolved @ [path])
          | Inr new_list' \<Rightarrow>
              extend_from_paths_cells impl_path common_data new_list' paths
                (resolved @ [path])))"

fun sequence_items_cells ::
  "string \<Rightarrow> pyval \<Rightarrow> cell list \<Rightarrow> cell list \<Rightarrow> string list
     \<Rightarrow> (error + cell list) \<times> string list" where
  "sequence_items_cells impl_path common_data [] new_list resolved = (Inr new_list, resolved)"
| "sequence_items_cells impl_path common_data (i # rest) new_list resolved =
     (if is_merge_item (current i) then
        (case extend_from_paths_cells impl_path common_data new_list
                (merge_item_paths (current i)) resolved of
           (Inl e, resolved') \<Rightarrow> (Inl e, resolved')
         | (Inr new_list', resolved') \<Rightarrow>
             sequence_items_cells impl_path common_data rest new_list' resolved')
      else sequence_items_cells impl_path common_data rest (new_list @ [i]) resolved)"

fun construct_sequence_cells ::
  "loader \<Rightarrow> cell list \<Rightarrow> string list \<Rightarrow> (error + cell list) \<times> string list" where
  "construct_sequence_cells PlainLoader data resolved = (Inr data, resolved)"
| "construct_sequence_cells (CommonLoader impl_path common_data) data resolved =
     sequence_items_cells impl_path common_data data [] resolved"

text \<open>
  The library's \<open>construct_object\<close> for one node: the cell it returns, the generators it
  has put aside and the number of the next generator. A scalar is constructed at once, an
  include with it; for a sequence or a mapping the empty collection is handed out and its
  generator put aside.
\<close>

fun construct_object ::
  "loader \<Rightarrow> node \<Rightarrow> nat \<Rightarrow> string list
     \<Rightarrow> (error + cell \<times> generator list \<times> nat) \<times> string list" where
  "construct_object L (PlainScalar v) next resolved = (Inr (Done v, [], next), resolved)"
| "construct_object L (TaggedScalar tag text) next resolved =
     (case construct_tagged L tag text resolved of
        (Inl e, resolved') \<Rightarrow> (Inl e, resolved')
      | (Inr v, resolved') \<Rightarrow> (Inr (Done v, [], next), resolved'))"
| "construct_object L (SequenceNode items) next resolved =
     (Inr (ListHole next, [SeqGenerator next items], Suc next), resolved)"
| "construct_object L (MappingNode pairs) next resolved =
     (Inr (DictHole next, [MapGenerator next pairs], Suc next), resolved)"

text \<open>
  What the library's own \<open>construct_sequence\<close> and \<open>construct_mapping\<close> do, the
  \<open>super()\<close> calls of lines 250 and 258: the items, or the keys and values, are
  constructed in order; a key that is not hashable is a ConstructorError.
\<close>

fun construct_items ::
  "loader \<Rightarrow> node list \<Rightarrow> nat \<Rightarrow> string list
     \<Rightarrow> (error + cell list \<times> generator list \<times> nat) \<times> string list" where
  "construct_items L [] next resolved = (Inr ([], [], next), resolved)"
| "construct_items L (item # items) next resolved =
     (case construct_object L item next resolved of
        (Inl e, resolved') \<Rightarrow> (Inl e, resolved')
      | (Inr (c, gs, next'), resolved') \<Rightarrow>
          (case construct_items L items next' resolved' of
             (Inl e, resolved'') \<Rightarrow> (Inl e, resolved'')
           | (Inr (cs, gs', next''), resolved'') \<Rightarrow>
               (Inr (c # cs, gs @ gs', next''), resolved'')))"

fun construct_pairs ::
  "loader \<Rightarrow> (node \<times> node) list \<Rightarrow> celldict \<Rightarrow> nat \<Rightarrow> string list
     \<Rightarrow> (error + celldict \<times> generator list \<times> nat) \<times> string list" where
  "construct_pairs L [] mapping next resolved = (Inr (mapping, [], next), resolved)"
| "construct_pairs L ((key_node, value_node) # pairs) mapping next resolved =
     (case construct_object L key_node next resolved of
        (Inl e, resolved') \<Rightarrow> (Inl e, resolved')
      | (Inr (key, gs, next'), resolved') \<Rightarrow>
          if \<not> hashable (current key) then (Inl ConstructorError, resolved')
          else
            (case construct_object L value_node next' resolved' of
               (Inl e, resolved'') \<Rightarrow> (Inl e, resolved'')
             | (Inr (val, gs', next''), resolved'') \<Rightarrow>
                 (case construct_pairs L pairs (AList.update (current key) val mapping)
                         next'' resolved'' of
                    (Inl e, resolved''') \<Rightarrow> (Inl e, resolved''')
                  | (Inr (mapping', gs'', next'''), resolved''') \<Rightarrow>
                      (Inr (mapping', gs @ gs' @ gs'', next'''), resolved'''))))"

text \<open>
  Running one generator: the body of the library's \<open>construct_yaml_seq\<close> or
  \<open>construct_yaml_map\<close>, which calls the \<open>construct_sequence\<close> or \<open>construct_mapping\<close>
  of the loader class in use and fills the collection with the result.
\<close>

fun run_generator ::
  "loader \<Rightarrow> generator \<Rightarrow> nat \<Rightarrow> string list
     \<Rightarrow> (error + content \<times> generator list \<times> nat) \<times> string list" where
  "run_generator L (SeqGenerator j items) next resolved =
     (case construct_items L items next resolved of
        (Inl e, resolved') \<Rightarrow> (Inl e, resolved')
      | (Inr (data, gs, next'), resolved') \<Rightarrow>
          (case construct_sequence_cells L data resolved' of
             (Inl e, resolved'') \<Rightarrow> (Inl e, resolved'')
           | (Inr new_list, resolved'') \<Rightarrow> (Inr (ListContent new_list, gs, next'), resolved'')))"
| "run_generator L (MapGenerator j pairs) next resolved =
     (case construct_pairs L pairs [] next resolved of
        (Inl e, resolved') \<Rightarrow> (Inl e, resolved')
      | (Inr (data, gs, next'), resolved') \<Rightarrow>
          (case construct_mapping_cells L data resolved' of
             (Inl e, resolved'') \<Rightarrow> (Inl e, resolved'')
           | (Inr data', resolved'') \<Rightarrow> (Inr (DictContent data', gs, next'), resolved'')))"

text \<open>
  The loop of the library's \<open>construct_document\<close>: the generators are run first in,
  first out, those put aside while one runs going to the end of the queue. \<open>filled\<close> holds
  the contents of the collections filled so far, in the order of their numbers.
\<close>

fun gen_size :: "generator \<Rightarrow> nat" where
  "gen_size (SeqGenerator j items) = size (SequenceNode items)"
| "gen_size (MapGenerator j pairs) = size (MappingNode pairs)"

function run_generators ::
  "loader \<Rightarrow> generator list \<Rightarrow> content list \<Rightarrow> nat \<Rightarrow> string list
     \<Rightarrow> (error + content list) \<times> string list" where
  "run_generators L [] filled next resolved = (Inr filled, resolved)"
| "run_generators L (g # gs) filled next resolved =
     (case run_generator L g next resolved of
        (Inl e, resolved') \<Rightarrow> (Inl e, resolved')
      | (Inr (c, new, next'), resolved') \<Rightarrow>
          run_generators L (gs @ new) (filled @ [c]) next' resolved')"
  by pat_completeness auto
termination
proof -
  have obj: "sum_list (map gen_size gs) \<le> size n"
    if "construct_object L n next r = (Inr (c, gs, next'), r')"
    for L n "next" r c gs next' r'
    using that by (cases n) (auto split: prod.splits sum.splits)
  have items: "sum_list (map gen_size gs) \<le> size_list size ns"
    if "construct_items L ns next r = (Inr (cs, gs, next'), r')"
    for L ns "next" r cs gs next' r'
    using that
  proof (induction ns arbitrary: "next" r cs gs next' r')
    case Nil
    then show ?case by simp
  next
    case (Cons n ns)
    from Cons.prems obtain c g1 n1 r1 cs' g2 where
      1: "construct_object L n next r = (Inr (c, g1, n1), r1)"
      and 2: "construct_items L ns n1 r1 = (Inr (cs', g2, next'), r')"
      and gs: "gs = g1 @ g2"
      by (auto split: prod.splits sum.splits)
    from obj [OF 1] Cons.IH [OF 2] show ?case by (simp add: gs)
  qed
  have pairs: "sum_list (map gen_size gs) \<le> size_list (size_prod size size) ps"
    if "construct_pairs L ps m next r = (Inr (m', gs, next'), r')"
    for L ps m "next" r m' gs next' r'
    using that
  proof (induction ps arbitrary: m "next" r m' gs next' r')
    case Nil
    then show ?case by simp
  next
    case (Cons p ps)
    obtain kn vn where p: "p = (kn, vn)" by (cases p)
    from Cons.prems obtain k g1 n1 r1 v g2 n2 r2 g3 where
      1: "construct_object L kn next r = (Inr (k, g1, n1), r1)"
      and 2: "construct_object L vn n1 r1 = (Inr (v, g2, n2), r2)"
      and 3: "construct_pairs L ps (AList.update (current k) v m) n2 r2 = (Inr (m', g3, next'), r')"
      and gs: "gs = g1 @ g2 @ g3"
      by (auto simp: p split: prod.splits sum.splits if_splits)
    from obj [OF 1] obj [OF 2] Cons.IH [OF 3] show ?case by (simp add: gs p)
  qed
  have run: "sum_list (map gen_size new) < gen_size g"
    if "run_generator L g next r = (Inr (c, new, next'), r')"
    for L g "next" r c new next' r'
  proof (cases g)
    case (SeqGenerator j ns)
    with that obtain cs r1 where "construct_items L ns next r = (Inr (cs, new, next'), r1)"
      by (auto split: prod.splits sum.splits)
    from items [OF this] show ?thesis by (simp add: SeqGenerator)
  next
    case (MapGenerator j ps)
    with that obtain m' r1 where "construct_pairs L ps [] next r = (Inr (m', new, next'), r1)"
      by (auto split: prod.splits sum.splits)
    from pairs [OF this] show ?thesis by (simp add: MapGenerator)
  qed
  show ?thesis
    by (relation "measure (\<lambda>(L, gs, filled, next, resolved). sum_list (map gen_size gs))")
       (auto dest: run [OF sym])
qed

text \<open>
  Once the queue is empty every collection is filled. \<open>finish base cs\<close> gives the values
  of the collections with the numbers \<open>base\<close>, \<open>base + 1\<close>, ... whose contents are \<open>cs\<close>;
  a collection only holds collections with greater numbers.
\<close>

fun plug :: "(nat \<Rightarrow> pyval) \<Rightarrow> cell \<Rightarrow> pyval" where
  "plug final (Done v) = v"
| "plug final (ListHole j) = final j"
| "plug final (DictHole j) = final j"

fun content_value :: "(nat \<Rightarrow> pyval) \<Rightarrow> content \<Rightarrow> pyval" where
  "content_value final (ListContent cells) = VList (map (plug final) cells)"
| "content_value final (DictContent d) = VDict (map (\<lambda>(k, c). (k, plug final c)) d)"

definition lookup_from :: "nat \<Rightarrow> pyval list \<Rightarrow> nat \<Rightarrow> pyval" where
  "lookup_from base values j =
     (if base \<le> j \<and> j - base < length values then values ! (j - base) else VNone)"

fun finish :: "nat \<Rightarrow> content list \<Rightarrow> pyval list" where
  "finish base [] = []"
| "finish base (c # cs) =
     (let later = finish (Suc base) cs
      in content_value (lookup_from (Suc base) later) c # later)"

text \<open>
  The library's \<open>construct_document\<close> with the loader class \<open>L\<close>: the root node is
  constructed, the generators are run, and the document is the root with every collection
  filled. An exception of any step leaves the whole construction.
\<close>

definition construct_document ::
  "loader \<Rightarrow> node \<Rightarrow> string list \<Rightarrow> (error + pyval) \<times> string list" where
  "construct_document L root resolved =
     (case construct_object L root 0 resolved of
        (Inl e, resolved') \<Rightarrow> (Inl e, resolved')
      | (Inr (data, gs, next), resolved') \<Rightarrow>
          (case run_generators L gs [] next resolved' of
             (Inl e, resolved'') \<Rightarrow> (Inl e, resolved'')
           | (Inr filled, resolved'') \<Rightarrow>
               (Inr (plug (lookup_from 0 (finish 0 filled)) data), resolved'')))"

text \<open>\<open>yaml.load(document, Loader=L)\<close>: the constructed document, or the exception.\<close>

definition yaml_load :: "loader \<Rightarrow> node \<Rightarrow> error + pyval" where
  "yaml_load L document = fst (construct_document L document [])"

text \<open>
  What a method finds in a dictionary under construction: every cell by its current value.
\<close>

definition current_dict :: "celldict \<Rightarrow> pydict" where
  "current_dict d = map (\<lambda>(k, c). (k, current c)) d"

subsection \<open>Creating the loader\<close>

text \<open>\<open>os.path.dirname\<close> and \<open>os.path.join\<close> of two components, on POSIX paths.\<close>

definition dirname :: "string \<Rightarrow> string" where
  "dirname p =
     (let head = rev (dropWhile (\<lambda>c. c \<noteq> CHR ''/'') (rev p)) in
      if head \<noteq> [] \<and> \<not> list_all (\<lambda>c. c = CHR ''/'') head
      then rev (dropWhile (\<lambda>c. c = CHR ''/'') (rev head)) else head)"

definition path_join :: "string \<Rightarrow> string \<Rightarrow> string" where
  "path_join a b =
     (if prefix ''/'' b then b
      else if a = [] \<or> last a = CHR ''/'' then a @ b
      else a @ ''/'' @ b)"

text \<open>
  \<open>CreateYamlLoader\<close>. The file system is a map from the paths that exist to the YAML
  document each file holds; \<open>loaded\<close> is the list of the files read and parsed so far,
  returned extended. The common data is parsed with \<open>yaml.Loader\<close> itself; an exception
  of that parse leaves \<open>CreateYamlLoader\<close>.
\<close>

definition CreateYamlLoader ::
  "(string \<rightharpoonup> node) \<Rightarrow> string \<Rightarrow> string list \<Rightarrow> (error + loader) \<times> string list" where
  "CreateYamlLoader files impl_path loaded =
     (let common_file_path = path_join (dirname impl_path) ''__init__.yaml'' in
      case files common_file_path of
        None \<Rightarrow> (Inr (CommonLoader impl_path VNone), loaded)
      | Some document \<Rightarrow>
          (case yaml_load PlainLoader document of
             Inl e \<Rightarrow> (Inl e, loaded @ [common_file_path])
           | Inr common_data \<Rightarrow>
               (Inr (CommonLoader impl_path common_data), loaded @ [common_file_path])))"

subsection \<open>Documents without markers\<close>

text \<open>
  A document has no marker when no scalar carries the tag \<open>INCLUDE_MACRO\<close>, no key of a
  mapping is the string \<open>MERGE_MACRO\<close> and no item of a sequence is a string that starts
  with \<open>MERGE_MACRO\<close>.
\<close>

fun merge_marker_item :: "node \<Rightarrow> bool" where
  "merge_marker_item (PlainScalar v) = is_merge_item v"
| "merge_marker_item n = False"

fun merge_marker_key :: "node \<Rightarrow> bool" where
  "merge_marker_key (PlainScalar v) = (v = VStr MERGE_MACRO)"
| "merge_marker_key n = False"

function marker_free :: "node \<Rightarrow> bool"
  and marker_free_items :: "node list \<Rightarrow> bool"
  and marker_free_pairs :: "(node \<times> node) list \<Rightarrow> bool" where
  "marker_free (PlainScalar v) = True"
| "marker_free (TaggedScalar tag text) = (tag \<noteq> INCLUDE_MACRO)"
| "marker_free (SequenceNode items) = marker_free_items items"
| "marker_free (MappingNode pairs) = marker_free_pairs pairs"
| "marker_free_items [] = True"
| "marker_free_items (item # items) =
     (marker_free item \<and> \<not> merge_marker_item item \<and> marker_free_items items)"
| "marker_free_pairs [] = True"
| "marker_free_pairs ((key_node, value_node) # pairs) =
     (marker_free key_node \<and> \<not> merge_marker_key key_node \<and> marker_free value_node
      \<and> marker_free_pairs pairs)"
  by pat_completeness auto
termination
  by (relation "measure (\<lambda>x. case x of
          Inl n \<Rightarrow> size n
        | Inr (Inl items) \<Rightarrow> size_list size items
        | Inr (Inr pairs) \<Rightarrow> size_list (size_prod size size) pairs)")
     auto

text \<open>A generator has no marker when the node it fills has none.\<close>

fun gen_marker_free :: "generator \<Rightarrow> bool" where
  "gen_marker_free (SeqGenerator j items) = marker_free_items items"
| "gen_marker_free (MapGenerator j pairs) = marker_free_pairs pairs"

subsection \<open>References to the common data during a parse\<close>

text \<open>
  \<open>log_ok impl_path common_data res resolved resolved'\<close> relates the result \<open>res\<close> of a
  method to the record of \<open>_GetData\<close> calls before and after it: the record has only grown,
  every attribute path added to it whose \<open>_GetData\<close> call raises has made this exception
  the result of the method, and the method has raised a LayoutException with a message only
  if it has called \<open>_GetData\<close>.
\<close>

definition log_ok ::
  "string \<Rightarrow> pyval \<Rightarrow> error + 'a \<Rightarrow> string list \<Rightarrow> string list \<Rightarrow> bool" where
  "log_ok impl_path common_data res resolved resolved' \<longleftrightarrow>
     (\<exists>new. resolved' = resolved @ new
        \<and> (\<forall>p\<in>set new. \<forall>e. GetData impl_path common_data p = Inl e \<longrightarrow> res = Inl e)
        \<and> (\<forall>m. res = Inl (LayoutException m) \<longrightarrow> new \<noteq> []))"

section \<open>Properties of the release track resolution\<close>

text \<open>
  C1. A candidate list of length exactly 1: resolution returns the candidate's producer when
  the candidate's track set is empty (the wildcard) or contains the requested track, and
  otherwise raises ReleaseTrackNotImplementedException, whose message names the requested
  track by its identifier and the source location \<open>impl_file\<close>.
\<close>

theorem extract_single_candidate:
  "ExtractReleaseTrackImplementation impl_file expected_track [(impl, valid_tracks)] =
     (if valid_tracks = {} \<or> expected_track \<in> valid_tracks then Inr impl
      else Inl (ReleaseTrackNotImplementedException
                  (''No implementation for release track ['' @ track_id expected_track
                     @ ''] for element: ['' @ impl_file @ '']'')))"
  by (simp add: ExtractReleaseTrackImplementation_def no_implementation_def)

theorem extract_single_candidate_witness:
  "ExtractReleaseTrackImplementation ''surface/run.py'' (ReleaseTrack ''BETA'') [(Suc 0, {})] = Inr (Suc 0)
   \<and> ExtractReleaseTrackImplementation ''surface/run.py'' (ReleaseTrack ''BETA'') 
       [(Suc 0, {ReleaseTrack ''GA'', ReleaseTrack ''BETA''})]
       = Inr (Suc 0)
   \<and> ExtractReleaseTrackImplementation ''surface/run.py'' (ReleaseTrack ''BETA'') [(Suc 0, {ReleaseTrack ''GA''})]
       = Inl (ReleaseTrackNotImplementedException
           ''No implementation for release track [BETA] for element: [surface/run.py]'')"
  using extract_single_candidate [of "''surface/run.py''" "ReleaseTrack ''BETA''" "Suc 0" "{}"]
        extract_single_candidate [of "''surface/run.py''" "ReleaseTrack ''BETA''" "Suc 0"
          "{ReleaseTrack ''GA'', ReleaseTrack ''BETA''}"]
        extract_single_candidate [of "''surface/run.py''" "ReleaseTrack ''BETA''" "Suc 0"
          "{ReleaseTrack ''GA''}"]
  by simp

lemma claims_Nil [simp]: "claims t [] = 0" by (simp add: claims_def)
lemma claims_Cons [simp]: "claims t (c # cs) = (if t \<in> snd c then Suc (claims t cs) else claims t cs)"
  by (simp add: claims_def)

lemma check_conflicts_None_iff:
  "\<forall>c\<in>set impls. snd c \<noteq> {} \<Longrightarrow>
   check_conflicts f impls acc = None \<longleftrightarrow> (\<forall>t. claims t impls + (if t \<in> acc then 1 else 0) \<le> 1)"
proof (induction impls arbitrary: acc)
  case Nil
  then show ?case by simp
next
  case (Cons c cs)
  obtain impl vt where c: "c = (impl, vt)" by (cases c)
  from Cons.prems have ne: "vt \<noteq> {}" and rest: "\<forall>c\<in>set cs. snd c \<noteq> {}" by (auto simp: c)
  show ?case
  proof (cases "acc \<inter> vt = {}")
    case True
    have "check_conflicts f (c # cs) acc = check_conflicts f cs (acc \<union> vt)"
      using ne True by (simp add: c)
    also have "\<dots> = None \<longleftrightarrow> (\<forall>t. claims t cs + (if t \<in> acc \<union> vt then 1 else 0) \<le> 1)"
      by (rule Cons.IH [OF rest])
    also have "\<dots> \<longleftrightarrow> (\<forall>t. claims t (c # cs) + (if t \<in> acc then 1 else 0) \<le> 1)"
    proof (intro iff_allI)
      fix t show "claims t cs + (if t \<in> acc \<union> vt then 1 else 0) \<le> 1
         \<longleftrightarrow> claims t (c # cs) + (if t \<in> acc then 1 else 0) \<le> 1"
        using True by (auto simp: c)
    qed
    finally show ?thesis .
  next
    case False
    then obtain t where t: "t \<in> acc" "t \<in> vt" by blast
    have "check_conflicts f (c # cs) acc \<noteq> None"
      using ne False by (simp add: c)
    moreover have "\<not> (claims t (c # cs) + (if t \<in> acc then 1 else 0) \<le> 1)"
      using t by (simp add: c)
    ultimately show ?thesis by blast
  qed
qed

lemma check_conflicts_Some:
  "\<forall>c\<in>set impls. snd c \<noteq> {} \<Longrightarrow> check_conflicts f impls acc = Some e \<Longrightarrow>
   \<exists>d. e = LayoutException_tracks d f \<and> d \<noteq> {} \<and>
       (\<forall>x\<in>d. 2 \<le> claims x impls + (if x \<in> acc then 1 else 0))"
proof (induction impls arbitrary: acc)
  case Nil
  then show ?case by simp
next
  case (Cons c cs)
  obtain impl vt where c: "c = (impl, vt)" by (cases c)
  from Cons.prems have ne: "vt \<noteq> {}" and rest: "\<forall>c\<in>set cs. snd c \<noteq> {}" by (auto simp: c)
  show ?case
  proof (cases "acc \<inter> vt = {}")
    case True
    from Cons.prems(2) have "check_conflicts f cs (acc \<union> vt) = Some e"
      using ne True by (simp add: c)
    from Cons.IH [OF rest this] obtain d where d: "e = LayoutException_tracks d f" "d \<noteq> {}"
      "\<forall>x\<in>d. 2 \<le> claims x cs + (if x \<in> acc \<union> vt then 1 else 0)" by blast
    have "\<forall>x\<in>d. 2 \<le> claims x (c # cs) + (if x \<in> acc then 1 else 0)"
    proof
      fix x assume "x \<in> d"
      with d(3) have "2 \<le> claims x cs + (if x \<in> acc \<union> vt then 1 else 0)" by blast
      then show "2 \<le> claims x (c # cs) + (if x \<in> acc then 1 else 0)"
        using True by (auto simp: c split: if_splits)
    qed
    with d show ?thesis by blast
  next
    case False
    from Cons.prems(2) have e: "e = LayoutException_tracks (acc \<inter> vt) f"
      using ne False by (simp add: c)
    have "\<forall>x\<in>acc \<inter> vt. 2 \<le> claims x (c # cs) + (if x \<in> acc then 1 else 0)"
      by (auto simp: c)
    with e False show ?thesis by blast
  qed
qed

lemma filter_two_iff:
  "2 \<le> length (filter P xs) \<longleftrightarrow> (\<exists>i j. i < j \<and> j < length xs \<and> P (xs ! i) \<and> P (xs ! j))"
proof (induction xs)
  case Nil
  then show ?case by simp
next
  case (Cons x xs)
  have one: "1 \<le> length (filter P xs) \<longleftrightarrow> (\<exists>j < length xs. P (xs ! j))"
    by (metis One_nat_def Suc_le_eq filter_False in_set_conv_nth length_greater_0_conv
         filter_empty_conv)
  show ?case (is "?L \<longleftrightarrow> ?R")
  proof
    assume L: ?L
    show ?R
    proof (cases "2 \<le> length (filter P xs)")
      case True
      with Cons.IH obtain i j where "i < j" "j < length xs" "P (xs ! i)" "P (xs ! j)" by blast
      then have "Suc i < Suc j \<and> Suc j < length (x # xs) \<and> P ((x # xs) ! Suc i) \<and> P ((x # xs) ! Suc j)"
        by simp
      then show ?thesis by blast
    next
      case False
      with L have "P x" "1 \<le> length (filter P xs)" by (auto split: if_splits)
      with one obtain j where "j < length xs" "P (xs ! j)" by blast
      with \<open>P x\<close> have "0 < Suc j \<and> Suc j < length (x # xs) \<and> P ((x # xs) ! 0) \<and> P ((x # xs) ! Suc j)"
        by simp
      then show ?thesis by blast
    qed
  next
    assume ?R
    then obtain i j where ij: "i < j" "j < length (x # xs)" "P ((x # xs) ! i)" "P ((x # xs) ! j)"
      by blast
    then obtain j' where j': "j = Suc j'" by (cases j) auto
    show ?L
    proof (cases i)
      case 0
      with ij j' have "P x" "j' < length xs" "P (xs ! j')" by auto
      with one show ?thesis by auto
    next
      case (Suc i')
      with ij j' have "i' < j'" "j' < length xs" "P (xs ! i')" "P (xs ! j')" by auto
      with Cons.IH have "2 \<le> length (filter P xs)" by blast
      then show ?thesis by auto
    qed
  qed
qed

lemma length_filter_mset:
  "length (filter P xs) = size (filter_mset P (mset xs))"
  by (simp only: mset_filter [symmetric] size_mset)

lemma claims_mset: "mset impls' = mset impls \<Longrightarrow> claims t impls' = claims t impls"
  by (simp only: claims_def length_filter_mset)

lemma filter_unique_nth:
  "i < length xs \<Longrightarrow> P (xs ! i) \<Longrightarrow> \<forall>j<length xs. P (xs ! j) \<longrightarrow> j = i \<Longrightarrow>
   filter P xs = [xs ! i]"
proof (induction xs arbitrary: i)
  case Nil
  then show ?case by simp
next
  case (Cons x xs)
  show ?case
  proof (cases i)
    case 0
    have "\<not> P y" if "y \<in> set xs" for y
    proof
      assume "P y"
      from that obtain k where k: "k < length xs" "xs ! k = y"
        unfolding in_set_conv_nth by blast
      then have "Suc k < length (x # xs)" "P ((x # xs) ! Suc k)" using \<open>P y\<close> by simp_all
      with Cons.prems(3) have "Suc k = i" by blast
      with 0 show False by simp
    qed
    then have "filter P xs = []" by (simp add: filter_empty_conv)
    with 0 Cons.prems(2) show ?thesis by simp
  next
    case (Suc i')
    have "\<not> P x"
    proof
      assume "P x"
      then have "0 < length (x # xs)" "P ((x # xs) ! 0)" by simp_all
      with Cons.prems(3) have "0 = i" by blast
      with Suc show False by simp
    qed
    moreover have "filter P xs = [xs ! i']"
    proof (rule Cons.IH)
      show "i' < length xs" using Cons.prems(1) Suc by simp
      show "P (xs ! i')" using Cons.prems(2) Suc by simp
      show "\<forall>j<length xs. P (xs ! j) \<longrightarrow> j = i'"
      proof (intro allI impI)
        fix j assume "j < length xs" "P (xs ! j)"
        then have "Suc j < length (x # xs)" "P ((x # xs) ! Suc j)" by simp_all
        with Cons.prems(3) have "Suc j = i" by blast
        with Suc show "j = i'" by simp
      qed
    qed
    ultimately show ?thesis using Suc by simp
  qed
qed

lemma disjoint_claims_le_1:
  assumes "\<forall>i<length impls. \<forall>j<length impls. i \<noteq> j \<longrightarrow> snd (impls ! i) \<inter> snd (impls ! j) = {}"
  shows "claims t impls \<le> 1"
proof (rule ccontr)
  assume "\<not> claims t impls \<le> 1"
  then have "2 \<le> length (filter (\<lambda>c. t \<in> snd c) impls)" by (simp add: claims_def)
  then obtain i j where "i < j" "j < length impls" "t \<in> snd (impls ! i)" "t \<in> snd (impls ! j)"
    unfolding filter_two_iff by blast
  then have "i < length impls" "i \<noteq> j" by auto
  with assms \<open>j < length impls\<close> have "snd (impls ! i) \<inter> snd (impls ! j) = {}" by blast
  with \<open>t \<in> snd (impls ! i)\<close> \<open>t \<in> snd (impls ! j)\<close> show False by blast
qed

text \<open>
  C2. A candidate list of length greater than 1 in which every candidate declares a non-empty
  track set and the track sets are pairwise disjoint: resolution returns the producer of the
  candidate whose track set contains the requested track, that candidate is unique, and when
  no candidate's track set contains the requested track resolution raises
  ReleaseTrackNotImplementedException.
\<close>

theorem extract_disjoint_candidates:
  assumes len: "1 < length implementations"
    and nonempty: "\<forall>c\<in>set implementations. snd c \<noteq> {}"
    and disjoint: "\<forall>i<length implementations. \<forall>j<length implementations.
                     i \<noteq> j \<longrightarrow> snd (implementations ! i) \<inter> snd (implementations ! j) = {}"
  shows "(\<forall>i<length implementations. expected_track \<in> snd (implementations ! i) \<longrightarrow>
            ExtractReleaseTrackImplementation impl_file expected_track implementations
              = Inr (fst (implementations ! i))
            \<and> (\<forall>j<length implementations. expected_track \<in> snd (implementations ! j) \<longrightarrow> j = i))
       \<and> ((\<forall>c\<in>set implementations. expected_track \<notin> snd c) \<longrightarrow>
            ExtractReleaseTrackImplementation impl_file expected_track implementations
              = Inl (ReleaseTrackNotImplementedException (no_implementation expected_track impl_file)))"
proof -
  let ?P = "\<lambda>(impl, valid_tracks). expected_track \<in> valid_tracks"
  have P: "\<And>c. ?P c \<longleftrightarrow> expected_track \<in> snd c" by (simp add: case_prod_unfold)
  have "\<forall>t. claims t implementations + (if t \<in> {} then 1 else 0) \<le> 1"
    using disjoint_claims_le_1 [OF disjoint] by simp
  then have ok: "check_conflicts impl_file implementations {} = None"
    using check_conflicts_None_iff [OF nonempty] by blast
  have E: "ExtractReleaseTrackImplementation impl_file expected_track implementations =
    (if length (filter ?P implementations) \<noteq> 1
     then Inl (ReleaseTrackNotImplementedException (no_implementation expected_track impl_file))
     else Inr (map fst (filter ?P implementations) ! 0))"
    using len ok by (simp add: ExtractReleaseTrackImplementation_def Let_def)
  have found: "ExtractReleaseTrackImplementation impl_file expected_track implementations
              = Inr (fst (implementations ! i))
            \<and> (\<forall>j<length implementations. expected_track \<in> snd (implementations ! j) \<longrightarrow> j = i)"
    if i: "i < length implementations" "expected_track \<in> snd (implementations ! i)" for i
  proof -
    have uniq: "\<forall>j<length implementations. expected_track \<in> snd (implementations ! j) \<longrightarrow> j = i"
    proof (intro allI impI)
      fix j assume j: "j < length implementations" "expected_track \<in> snd (implementations ! j)"
      show "j = i"
      proof (rule ccontr)
        assume "j \<noteq> i"
        with disjoint i(1) j(1) have "snd (implementations ! i) \<inter> snd (implementations ! j) = {}"
          by metis
        with i(2) j(2) show False by blast
      qed
    qed
    have "filter ?P implementations = [implementations ! i]"
    proof (rule filter_unique_nth)
      show "i < length implementations" by (rule i(1))
      show "?P (implementations ! i)" using i(2) by (simp only: P)
      show "\<forall>j<length implementations. ?P (implementations ! j) \<longrightarrow> j = i"
        using uniq by (simp only: P)
    qed
    with E uniq show ?thesis by simp
  qed
  have none: "ExtractReleaseTrackImplementation impl_file expected_track implementations
              = Inl (ReleaseTrackNotImplementedException (no_implementation expected_track impl_file))"
    if "\<forall>c\<in>set implementations. expected_track \<notin> snd c"
  proof -
    from that have "filter ?P implementations = []" by (auto simp: filter_empty_conv)
    with E show ?thesis by simp
  qed
  from found none show ?thesis by blast
qed

theorem extract_disjoint_candidates_witness:
  "ExtractReleaseTrackImplementation ''surface/run.py'' (ReleaseTrack ''BETA'')
       [(Suc 0, {ReleaseTrack ''GA''}), (2, {ReleaseTrack ''ALPHA'', ReleaseTrack ''BETA''})] = Inr 2
   \<and> ExtractReleaseTrackImplementation ''surface/run.py'' (ReleaseTrack ''PREVIEW'')
       [(Suc 0, {ReleaseTrack ''GA''}), (2, {ReleaseTrack ''ALPHA'', ReleaseTrack ''BETA''})]
       = Inl (ReleaseTrackNotImplementedException
           ''No implementation for release track [PREVIEW] for element: [surface/run.py]'')"
proof -
  let ?impls = "[(Suc 0, {ReleaseTrack ''GA''}),
                (2::nat, {ReleaseTrack ''ALPHA'', ReleaseTrack ''BETA''})]"
  have len: "1 < length ?impls" by simp
  have ne: "\<forall>c\<in>set ?impls. snd c \<noteq> {}" by simp
  have dj: "\<forall>i<length ?impls. \<forall>j<length ?impls. i \<noteq> j \<longrightarrow> snd (?impls ! i) \<inter> snd (?impls ! j) = {}"
    by (simp add: less_Suc_eq nth_Cons')
  note beta = extract_disjoint_candidates [OF len ne dj, of "ReleaseTrack ''BETA''" "''surface/run.py''",
      THEN conjunct1, rule_format, of "Suc 0", THEN conjunct1]
  note preview = extract_disjoint_candidates [OF len ne dj, of "ReleaseTrack ''PREVIEW''" "''surface/run.py''",
      THEN conjunct2]
  have "ExtractReleaseTrackImplementation ''surface/run.py'' (ReleaseTrack ''BETA'') ?impls = Inr 2"
    using beta by simp
  moreover
  have "ExtractReleaseTrackImplementation ''surface/run.py'' (ReleaseTrack ''PREVIEW'') ?impls
          = Inl (ReleaseTrackNotImplementedException
           ''No implementation for release track [PREVIEW] for element: [surface/run.py]'')"
    using preview by (simp add: no_implementation_def)
  ultimately show ?thesis by simp
qed

text \<open>
  C3. A candidate list of length greater than 1 in which every candidate declares a non-empty
  track set and some release track is claimed by two candidates: resolution raises the
  LayoutException for multiple definitions, whose tracks are a non-empty set of tracks that
  are each claimed by two candidates; and it does so for every reordering of the list (any
  list with the same multiset of candidates, the list itself included).
\<close>

theorem extract_overlapping_candidates:
  assumes len: "1 < length implementations"
    and nonempty: "\<forall>c\<in>set implementations. snd c \<noteq> {}"
    and overlap: "\<exists>i j. i < j \<and> j < length implementations
                    \<and> snd (implementations ! i) \<inter> snd (implementations ! j) \<noteq> {}"
    and reorder: "mset reordered = mset implementations"
  shows "\<exists>duplicates.
           ExtractReleaseTrackImplementation impl_file expected_track reordered
             = Inl (LayoutException_tracks duplicates impl_file)
           \<and> duplicates \<noteq> {}
           \<and> (\<forall>t\<in>duplicates. \<exists>i j. i < j \<and> j < length reordered
                                  \<and> t \<in> snd (reordered ! i) \<and> t \<in> snd (reordered ! j))"
proof -
  have len': "length reordered \<noteq> 1"
    using len mset_eq_length [OF reorder] by simp
  have nonempty': "\<forall>c\<in>set reordered. snd c \<noteq> {}"
    using nonempty mset_eq_setD [OF reorder] by simp
  from overlap obtain i j t where ij: "i < j" "j < length implementations"
    and t: "t \<in> snd (implementations ! i)" "t \<in> snd (implementations ! j)"
    by blast
  then have "2 \<le> length (filter (\<lambda>c. t \<in> snd c) implementations)"
    unfolding filter_two_iff by blast
  then have "2 \<le> claims t implementations" by (simp only: claims_def)
  then have "2 \<le> claims t reordered"
    by (simp only: claims_mset [OF reorder])
  then have "\<not> (\<forall>t. claims t reordered + (if t \<in> {} then 1 else 0) \<le> 1)"
    by (auto simp: not_le intro!: exI [of _ t])
  then have "check_conflicts impl_file reordered {} \<noteq> None"
    using check_conflicts_None_iff [OF nonempty'] by blast
  then obtain e where e: "check_conflicts impl_file reordered {} = Some e" by blast
  from check_conflicts_Some [OF nonempty' e] obtain d where d: "e = LayoutException_tracks d impl_file"
    "d \<noteq> {}" "\<forall>x\<in>d. 2 \<le> claims x reordered + (if x \<in> {} then 1 else 0)" by blast
  have "\<forall>x\<in>d. \<exists>i j. i < j \<and> j < length reordered
                                  \<and> x \<in> snd (reordered ! i) \<and> x \<in> snd (reordered ! j)"
  proof
    fix x assume "x \<in> d"
    with d(3) have "2 \<le> length (filter (\<lambda>c. x \<in> snd c) reordered)"
      by (simp add: claims_def)
    then show "\<exists>i j. i < j \<and> j < length reordered
                                  \<and> x \<in> snd (reordered ! i) \<and> x \<in> snd (reordered ! j)"
      unfolding filter_two_iff .
  qed
  moreover have "ExtractReleaseTrackImplementation impl_file expected_track reordered
             = Inl (LayoutException_tracks d impl_file)"
    using len' e d(1) by (simp add: ExtractReleaseTrackImplementation_def)
  ultimately show ?thesis using d(2) by blast
qed

theorem extract_overlapping_candidates_witness:
  "ExtractReleaseTrackImplementation ''surface/run.py'' (ReleaseTrack ''GA'')
       [(Suc 0, {ReleaseTrack ''GA'', ReleaseTrack ''BETA''}), (2, {ReleaseTrack ''ALPHA''}),
        (3, {ReleaseTrack ''BETA''})]
     = Inl (LayoutException_tracks {ReleaseTrack ''BETA''} ''surface/run.py'')
   \<and> ExtractReleaseTrackImplementation ''surface/run.py'' (ReleaseTrack ''GA'')
       [(3, {ReleaseTrack ''BETA''}), (2, {ReleaseTrack ''ALPHA''}),
        (Suc 0, {ReleaseTrack ''GA'', ReleaseTrack ''BETA''})]
     = Inl (LayoutException_tracks {ReleaseTrack ''BETA''} ''surface/run.py'')"
proof -
  let ?impls = "[(Suc 0, {ReleaseTrack ''GA'', ReleaseTrack ''BETA''}), (2::nat, {ReleaseTrack ''ALPHA''}),
                (3, {ReleaseTrack ''BETA''})]"
  let ?perm = "[(3::nat, {ReleaseTrack ''BETA''}), (2, {ReleaseTrack ''ALPHA''}),
               (Suc 0, {ReleaseTrack ''GA'', ReleaseTrack ''BETA''})]"
  have len: "1 < length ?impls" by simp
  have ne: "\<forall>c\<in>set ?impls. snd c \<noteq> {}" by simp
  have "0 < (2::nat) \<and> 2 < length ?impls \<and> snd (?impls ! 0) \<inter> snd (?impls ! 2) \<noteq> {}"
    by simp
  then have ov: "\<exists>i j. i < j \<and> j < length ?impls \<and> snd (?impls ! i) \<inter> snd (?impls ! j) \<noteq> {}"
    by blast
  have same: "mset ?impls = mset ?impls" by simp
  have perm: "mset ?perm = mset ?impls" by simp
  from extract_overlapping_candidates [OF len ne ov same, of "''surface/run.py''" "ReleaseTrack ''GA''"]
  obtain d1 where d1: "ExtractReleaseTrackImplementation ''surface/run.py'' (ReleaseTrack ''GA'') ?impls
      = Inl (LayoutException_tracks d1 ''surface/run.py'')" by blast
  from extract_overlapping_candidates [OF len ne ov perm, of "''surface/run.py''" "ReleaseTrack ''GA''"]
  obtain d2 where d2: "ExtractReleaseTrackImplementation ''surface/run.py'' (ReleaseTrack ''GA'') ?perm
      = Inl (LayoutException_tracks d2 ''surface/run.py'')" by blast
  have "d1 = {ReleaseTrack ''BETA''}"
    using d1 by (simp add: ExtractReleaseTrackImplementation_def)
  moreover have "d2 = {ReleaseTrack ''BETA''}"
    using d2 by (simp add: ExtractReleaseTrackImplementation_def)
  ultimately show ?thesis using d1 d2 by simp
qed

section \<open>Properties of loading a native module\<close>

lemma collect_commands_set:
  "set (collect_commands attrs) = {c. TypeObject c \<in> set attrs \<and> is_Command c}"
  by (induction attrs rule: collect_commands.induct) auto

lemma collect_groups_set:
  "set (collect_groups attrs) = {c. TypeObject c \<in> set attrs \<and> \<not> is_Command c \<and> is_Group c}"
  by (induction attrs rule: collect_groups.induct) auto

lemma collect_commands_empty:
  "collect_commands attrs = [] \<longleftrightarrow> (\<forall>c. TypeObject c \<in> set attrs \<longrightarrow> \<not> is_Command c)"
proof -
  have "collect_commands attrs = [] \<longleftrightarrow> set (collect_commands attrs) = {}" by simp
  then show ?thesis unfolding collect_commands_set by blast
qed

lemma collect_groups_empty:
  "collect_groups attrs = [] \<longleftrightarrow>
     (\<forall>c. TypeObject c \<in> set attrs \<longrightarrow> \<not> (is_Group c \<and> \<not> is_Command c))"
proof -
  have "collect_groups attrs = [] \<longleftrightarrow> set (collect_groups attrs) = {}" by simp
  then show ?thesis unfolding collect_groups_set by blast
qed

text \<open>
  C8. Loading the implementations of a native module. A type is Group-tagged when the
  collecting loop puts it into \<open>groups\<close>: it is a subclass of \<open>base.Group\<close> and, the
  test being the \<open>elif\<close> of the Command test, not one of \<open>base.Command\<close>; it is
  Command-tagged when it is a subclass of \<open>base.Command\<close>. With \<open>is_command\<close> true,
  loading raises a LayoutException if any top-level type is Group-tagged, and otherwise
  raises a LayoutException if no type is Command-tagged; with \<open>is_command\<close> false the
  symmetric checks apply. In every other case loading succeeds.
\<close>

theorem module_kind_checks:
  "ImplementationsFromModule mod_file module_attributes True =
     (if \<exists>c. TypeObject c \<in> set module_attributes \<and> is_Group c \<and> \<not> is_Command c then
        Inl (LayoutException (''You cannot define groups [''
               @ join '', '' (map cls_name (collect_groups module_attributes))
               @ ''] in a command file: ['' @ mod_file @ '']''))
      else if \<forall>c. TypeObject c \<in> set module_attributes \<longrightarrow> \<not> is_Command c then
        Inl (LayoutException (''No commands defined in file: ['' @ mod_file @ '']''))
      else Inr (map (\<lambda>c. (c, ValidReleaseTracks c)) (collect_commands module_attributes)))
   \<and> ImplementationsFromModule mod_file module_attributes False =
     (if \<exists>c. TypeObject c \<in> set module_attributes \<and> is_Command c then
        Inl (LayoutException (''You cannot define commands [''
               @ join '', '' (map cls_name (collect_commands module_attributes))
               @ ''] in a command group file: ['' @ mod_file @ '']''))
      else if \<forall>c. TypeObject c \<in> set module_attributes \<longrightarrow> \<not> (is_Group c \<and> \<not> is_Command c) then
        Inl (LayoutException (''No command groups defined in file: ['' @ mod_file @ '']''))
      else Inr (map (\<lambda>c. (c, ValidReleaseTracks c)) (collect_groups module_attributes)))"
proof -
  have g: "collect_groups module_attributes \<noteq> [] \<longleftrightarrow>
      (\<exists>c. TypeObject c \<in> set module_attributes \<and> is_Group c \<and> \<not> is_Command c)"
    unfolding collect_groups_empty by blast
  have c: "collect_commands module_attributes \<noteq> [] \<longleftrightarrow>
      (\<exists>c. TypeObject c \<in> set module_attributes \<and> is_Command c)"
    unfolding collect_commands_empty by blast
  show ?thesis
    unfolding ImplementationsFromModule_def Let_def g c
      collect_commands_empty collect_groups_empty
    by simp
qed

theorem module_kind_checks_witness:
  "ImplementationsFromModule ''surface/run.py''
      [OtherObject, TypeObject \<lparr>cls_name = ''Run'', is_Command = True, is_Group = False,
                                ValidReleaseTracks = {ReleaseTrack ''GA''}\<rparr>,
       TypeObject \<lparr>cls_name = ''Jobs'', is_Command = False, is_Group = True,
                   ValidReleaseTracks = {ReleaseTrack ''GA''}\<rparr>] True
     = Inl (LayoutException ''You cannot define groups [Jobs] in a command file: [surface/run.py]'')
   \<and> ImplementationsFromModule ''surface/run.py'' [OtherObject :: attribute] True
     = Inl (LayoutException ''No commands defined in file: [surface/run.py]'')
   \<and> ImplementationsFromModule ''surface/jobs/__init__.py''
      [TypeObject \<lparr>cls_name = ''Run'', is_Command = True, is_Group = False,
                   ValidReleaseTracks = {ReleaseTrack ''GA''}\<rparr>,
       TypeObject \<lparr>cls_name = ''Jobs'', is_Command = False, is_Group = True,
                   ValidReleaseTracks = {ReleaseTrack ''GA''}\<rparr>] False
     = Inl (LayoutException
         ''You cannot define commands [Run] in a command group file: [surface/jobs/__init__.py]'')
   \<and> ImplementationsFromModule ''surface/jobs/__init__.py'' [OtherObject :: attribute] False
     = Inl (LayoutException ''No command groups defined in file: [surface/jobs/__init__.py]'')"
proof -
  let ?run = "\<lparr>cls_name = ''Run'', is_Command = True, is_Group = False,
               ValidReleaseTracks = {ReleaseTrack ''GA''}\<rparr>"
  let ?jobs = "\<lparr>cls_name = ''Jobs'', is_Command = False, is_Group = True,
                ValidReleaseTracks = {ReleaseTrack ''GA''}\<rparr>"
  let ?A = "[OtherObject, TypeObject ?run, TypeObject ?jobs]"
  let ?B = "[TypeObject ?run, TypeObject ?jobs]"
  let ?N = "[OtherObject :: attribute]"
  have g: "\<exists>c. TypeObject c \<in> set ?A \<and> is_Group c \<and> \<not> is_Command c"
    by (rule exI [of _ ?jobs]) simp
  have c: "\<exists>c. TypeObject c \<in> set ?B \<and> is_Command c"
    by (rule exI [of _ ?run]) simp
  have n1: "\<not> (\<exists>c. TypeObject c \<in> set ?N \<and> is_Group c \<and> \<not> is_Command c)" by simp
  have n2: "\<forall>c. TypeObject c \<in> set ?N \<longrightarrow> \<not> is_Command c" by simp
  have n3: "\<not> (\<exists>c. TypeObject c \<in> set ?N \<and> is_Command c)" by simp
  have n4: "\<forall>c. TypeObject c \<in> set ?N \<longrightarrow> \<not> (is_Group c \<and> \<not> is_Command c)" by simp
  have 1: "ImplementationsFromModule ''surface/run.py'' ?A True
     = Inl (LayoutException ''You cannot define groups [Jobs] in a command file: [surface/run.py]'')"
    using module_kind_checks [of "''surface/run.py''" ?A, THEN conjunct1]
    unfolding if_P [OF g] by simp
  have 2: "ImplementationsFromModule ''surface/run.py'' ?N True
     = Inl (LayoutException ''No commands defined in file: [surface/run.py]'')"
    using module_kind_checks [of "''surface/run.py''" ?N, THEN conjunct1]
    unfolding if_not_P [OF n1] if_P [OF n2] by simp
  have 3: "ImplementationsFromModule ''surface/jobs/__init__.py'' ?B False
     = Inl (LayoutException
         ''You cannot define commands [Run] in a command group file: [surface/jobs/__init__.py]'')"
    using module_kind_checks [of "''surface/jobs/__init__.py''" ?B, THEN conjunct2]
    unfolding if_P [OF c] by simp
  have 4: "ImplementationsFromModule ''surface/jobs/__init__.py'' ?N False
     = Inl (LayoutException ''No command groups defined in file: [surface/jobs/__init__.py]'')"
    using module_kind_checks [of "''surface/jobs/__init__.py''" ?N, THEN conjunct2]
    unfolding if_not_P [OF n3] if_P [OF n4] by simp
  from 1 2 3 4 show ?thesis by simp
qed

section \<open>Properties of the YAML loader\<close>

subsection \<open>Exceptions of \<open>_GetData\<close> leave the parse\<close>

lemma log_ok_refl:
  "\<forall>m. res \<noteq> Inl (LayoutException m) \<Longrightarrow> log_ok i c res r r"
  by (simp add: log_ok_def)

lemma log_ok_Inl:
  "log_ok i c (Inl e :: error + 'a) r r' \<Longrightarrow> log_ok i c (Inl e :: error + 'b) r r'"
  by (simp add: log_ok_def)

lemma log_ok_trans:
  assumes 1: "log_ok i c (Inr v :: error + 'a) r r1" and 2: "log_ok i c (res :: error + 'b) r1 r2"
  shows "log_ok i c res r r2"
proof -
  from 1 obtain n1 where n1: "r1 = r @ n1" "\<forall>p\<in>set n1. \<forall>e. GetData i c p \<noteq> Inl e"
    unfolding log_ok_def by auto
  from 2 obtain n2 where n2: "r2 = r1 @ n2"
    "\<forall>p\<in>set n2. \<forall>e. GetData i c p = Inl e \<longrightarrow> res = Inl e"
    "\<forall>m. res = Inl (LayoutException m) \<longrightarrow> n2 \<noteq> []"
    unfolding log_ok_def by auto
  have "r2 = r @ (n1 @ n2)" using n1(1) n2(1) by simp
  moreover have "\<forall>p\<in>set (n1 @ n2). \<forall>e. GetData i c p = Inl e \<longrightarrow> res = Inl e"
    using n1(2) n2(2) by auto
  moreover have "\<forall>m. res = Inl (LayoutException m) \<longrightarrow> n1 @ n2 \<noteq> []"
    using n2(3) by simp
  ultimately show ?thesis unfolding log_ok_def by blast
qed

lemma log_ok_step:
  "GetData i c p = Inr v \<Longrightarrow> log_ok i c (Inr v :: error + pyval) r (r @ [p])"
  by (simp add: log_ok_def)

lemma log_ok_fail:
  "GetData i c p = Inl e \<Longrightarrow> log_ok i c (Inl e :: error + 'a) r (r @ [p])"
  by (simp add: log_ok_def)

lemma log_ok_after:
  "GetData i c p = Inr v \<Longrightarrow> \<forall>m. e \<noteq> LayoutException m \<Longrightarrow>
   log_ok i c (Inl e :: error + 'a) r (r @ [p])"
  by (simp add: log_ok_def)

lemma key_value_of_not_layout: "key_value_of x \<noteq> Inl (LayoutException m)"
  by (cases x) (auto split: list.splits)

lemma update_elements_not_layout: "update_elements d xs \<noteq> Inl (LayoutException m)"
proof (induction xs arbitrary: d)
  case Nil
  then show ?case by simp
next
  case (Cons x xs)
  then show ?case
    using key_value_of_not_layout [of x m] by (auto split: sum.splits)
qed

lemma dict_update_not_layout: "dict_update d v \<noteq> Inl (LayoutException m)"
  by (cases v) (simp_all add: update_elements_not_layout)

lemma list_extend_not_layout: "list_extend l v \<noteq> Inl (LayoutException m)"
  by (cases v) simp_all

lemma construct_tagged_log:
  assumes "construct_tagged (CommonLoader i c) tag text r = (res, r')"
  shows "log_ok i c res r r'"
proof (cases "tag = INCLUDE_MACRO")
  case False
  with assms show ?thesis by (auto simp: log_ok_refl)
next
  case True
  with assms have res: "res = GetData i c text" "r' = r @ [text]" by auto
  show ?thesis
  proof (cases "GetData i c text")
    case (Inl e)
    then show ?thesis unfolding res by (simp add: log_ok_fail)
  next
    case (Inr v)
    then show ?thesis unfolding res by (simp add: log_ok_step)
  qed
qed

lemma log_ok_cong:
  "log_ok i c (res :: error + 'a) r r' \<Longrightarrow> (\<And>e. res = Inl e \<longleftrightarrow> (res' :: error + 'b) = Inl e) \<Longrightarrow>
   log_ok i c res' r r'"
  unfolding log_ok_def by metis

lemma log_ok_bind:
  assumes 1: "log_ok i c (res1 :: error + 'a) r r1"
    and fail: "\<And>e. res1 = Inl e \<Longrightarrow> (res :: error + 'b) = Inl e \<and> r' = r1"
    and cont: "\<And>v. res1 = Inr v \<Longrightarrow> log_ok i c res r1 r'"
  shows "log_ok i c res r r'"
proof (cases res1)
  case (Inl e)
  with fail have "res = Inl e" "r' = r1" by simp_all
  with 1 Inl show ?thesis by (auto intro: log_ok_Inl)
next
  case (Inr v)
  from cont [OF Inr] have "log_ok i c res r1 r'" .
  with 1 show ?thesis unfolding Inr by (rule log_ok_trans)
qed

lemma update_elements_cells_not_layout:
  "update_elements_cells d xs \<noteq> Inl (LayoutException m)"
proof (induction xs arbitrary: d)
  case Nil
  then show ?case by simp
next
  case (Cons x xs)
  then show ?case
    using key_value_of_not_layout [of x m] by (auto split: sum.splits)
qed

lemma dict_update_cells_not_layout: "dict_update_cells d v \<noteq> Inl (LayoutException m)"
  by (cases v) (simp_all add: update_elements_cells_not_layout)

lemma list_extend_cells_not_layout: "list_extend_cells l v \<noteq> Inl (LayoutException m)"
  by (cases v) simp_all

lemma update_from_paths_cells_log:
  "update_from_paths_cells i c data paths r = (res, r') \<Longrightarrow> log_ok i c res r r'"
proof (induction paths arbitrary: data r)
  case Nil
  then show ?case by (auto intro: log_ok_refl)
next
  case (Cons p paths)
  show ?case
  proof (cases "GetData i c p")
    case (Inl e)
    with Cons.prems have "res = Inl e" "r' = r @ [p]" by auto
    with Inl show ?thesis by (simp add: log_ok_fail)
  next
    case (Inr v)
    note g = this
    show ?thesis
    proof (cases "dict_update_cells data v")
      case (Inl e)
      with Cons.prems g have "res = Inl e" "r' = r @ [p]" by auto
      moreover have "\<forall>m. e \<noteq> LayoutException m"
        using Inl dict_update_cells_not_layout [of data v] by auto
      ultimately show ?thesis using g by (simp add: log_ok_after)
    next
      case (Inr data')
      with Cons.prems g
      have "update_from_paths_cells i c data' paths (r @ [p]) = (res, r')" by simp
      then have "log_ok i c res (r @ [p]) r'" by (rule Cons.IH)
      with log_ok_step [OF g] show ?thesis by (rule log_ok_trans)
    qed
  qed
qed

lemma extend_from_paths_cells_log:
  "extend_from_paths_cells i c new_list paths r = (res, r') \<Longrightarrow> log_ok i c res r r'"
proof (induction paths arbitrary: new_list r)
  case Nil
  then show ?case by (auto intro: log_ok_refl)
next
  case (Cons p paths)
  show ?case
  proof (cases "GetData i c p")
    case (Inl e)
    with Cons.prems have "res = Inl e" "r' = r @ [p]" by auto
    with Inl show ?thesis by (simp add: log_ok_fail)
  next
    case (Inr v)
    note g = this
    show ?thesis
    proof (cases "list_extend_cells new_list v")
      case (Inl e)
      with Cons.prems g have "res = Inl e" "r' = r @ [p]" by auto
      moreover have "\<forall>m. e \<noteq> LayoutException m"
        using Inl list_extend_cells_not_layout [of new_list v] by auto
      ultimately show ?thesis using g by (simp add: log_ok_after)
    next
      case (Inr new_list')
      with Cons.prems g
      have "extend_from_paths_cells i c new_list' paths (r @ [p]) = (res, r')" by simp
      then have "log_ok i c res (r @ [p]) r'" by (rule Cons.IH)
      with log_ok_step [OF g] show ?thesis by (rule log_ok_trans)
    qed
  qed
qed

lemma sequence_items_cells_log:
  "sequence_items_cells i c data new_list r = (res, r') \<Longrightarrow> log_ok i c res r r'"
proof (induction data arbitrary: new_list r)
  case Nil
  then show ?case by (auto intro: log_ok_refl)
next
  case (Cons x data)
  show ?case
  proof (cases "is_merge_item (current x)")
    case False
    with Cons.prems have "sequence_items_cells i c data (new_list @ [x]) r = (res, r')" by simp
    then show ?thesis by (rule Cons.IH)
  next
    case True
    obtain res1 r1 where
      e: "extend_from_paths_cells i c new_list (merge_item_paths (current x)) r = (res1, r1)"
      by (cases "extend_from_paths_cells i c new_list (merge_item_paths (current x)) r")
    then have l1: "log_ok i c res1 r r1" by (rule extend_from_paths_cells_log)
    show ?thesis
    proof (rule log_ok_bind [OF l1])
      fix err assume "res1 = Inl err"
      with Cons.prems True e show "res = Inl err \<and> r' = r1" by auto
    next
      fix new_list' assume "res1 = Inr new_list'"
      with Cons.prems True e have "sequence_items_cells i c data new_list' r1 = (res, r')"
        by simp
      then show "log_ok i c res r1 r'" by (rule Cons.IH)
    qed
  qed
qed

lemma construct_mapping_cells_log:
  "construct_mapping_cells (CommonLoader i c) data r = (res, r') \<Longrightarrow> log_ok i c res r r'"
  by (auto simp: Let_def log_ok_refl split: if_splits pyval.splits
           intro: update_from_paths_cells_log)

lemma construct_sequence_cells_log:
  "construct_sequence_cells (CommonLoader i c) data r = (res, r') \<Longrightarrow> log_ok i c res r r'"
  by (auto intro: sequence_items_cells_log)

lemma construct_object_log:
  assumes "construct_object (CommonLoader i c) n next r = (res, r')"
  shows "log_ok i c res r r'"
proof (cases n)
  case (PlainScalar v)
  with assms show ?thesis by (auto intro: log_ok_refl)
next
  case (TaggedScalar tag scalar)
  obtain res1 r1 where t: "construct_tagged (CommonLoader i c) tag scalar r = (res1, r1)"
    by (cases "construct_tagged (CommonLoader i c) tag scalar r")
  then have l1: "log_ok i c res1 r r1" by (rule construct_tagged_log)
  from assms t have "r' = r1" and "\<And>e. res1 = Inl e \<longleftrightarrow> res = Inl e"
    unfolding TaggedScalar by (auto split: sum.splits)
  with l1 show ?thesis by (auto intro: log_ok_cong)
next
  case (SequenceNode items)
  with assms show ?thesis by (auto intro: log_ok_refl)
next
  case (MappingNode pairs)
  with assms show ?thesis by (auto intro: log_ok_refl)
qed

lemma construct_items_log:
  "construct_items (CommonLoader i c) ns next r = (res, r') \<Longrightarrow> log_ok i c res r r'"
proof (induction ns arbitrary: "next" r res r')
  case Nil
  then show ?case by (auto intro: log_ok_refl)
next
  case (Cons n ns)
  obtain res1 r1 where c1: "construct_object (CommonLoader i c) n next r = (res1, r1)"
    by (cases "construct_object (CommonLoader i c) n next r")
  then have l1: "log_ok i c res1 r r1" by (rule construct_object_log)
  show ?case
  proof (rule log_ok_bind [OF l1])
    fix e assume "res1 = Inl e"
    with Cons.prems c1 show "res = Inl e \<and> r' = r1" by simp
  next
    fix v assume v: "res1 = Inr v"
    obtain cl gs n1 where v': "v = (cl, gs, n1)" by (cases v)
    obtain res2 r2 where c2: "construct_items (CommonLoader i c) ns n1 r1 = (res2, r2)"
      by (cases "construct_items (CommonLoader i c) ns n1 r1")
    then have l2: "log_ok i c res2 r1 r2" by (rule Cons.IH)
    from Cons.prems c1 v v' c2 have "r' = r2" and "\<And>e. res2 = Inl e \<longleftrightarrow> res = Inl e"
      by (auto split: sum.splits)
    with l2 show "log_ok i c res r1 r'" by (auto intro: log_ok_cong)
  qed
qed

lemma construct_pairs_log:
  "construct_pairs (CommonLoader i c) ps m next r = (res, r') \<Longrightarrow> log_ok i c res r r'"
proof (induction ps arbitrary: m "next" r res r')
  case Nil
  then show ?case by (auto intro: log_ok_refl)
next
  case (Cons p ps)
  obtain kn vn where p: "p = (kn, vn)" by (cases p)
  obtain res1 r1 where c1: "construct_object (CommonLoader i c) kn next r = (res1, r1)"
    by (cases "construct_object (CommonLoader i c) kn next r")
  then have l1: "log_ok i c res1 r r1" by (rule construct_object_log)
  show ?case
  proof (rule log_ok_bind [OF l1])
    fix e assume "res1 = Inl e"
    with Cons.prems c1 show "res = Inl e \<and> r' = r1" by (simp add: p)
  next
    fix v assume v: "res1 = Inr v"
    obtain key gs n1 where v': "v = (key, gs, n1)" by (cases v)
    show "log_ok i c res r1 r'"
    proof (cases "hashable (current key)")
      case False
      with Cons.prems c1 v v' have "res = Inl ConstructorError" "r' = r1" by (simp_all add: p)
      then show ?thesis by (simp add: log_ok_refl)
    next
      case True
      obtain res2 r2 where c2: "construct_object (CommonLoader i c) vn n1 r1 = (res2, r2)"
        by (cases "construct_object (CommonLoader i c) vn n1 r1")
      then have l2: "log_ok i c res2 r1 r2" by (rule construct_object_log)
      show ?thesis
      proof (rule log_ok_bind [OF l2])
        fix e assume "res2 = Inl e"
        with Cons.prems c1 v v' True c2 show "res = Inl e \<and> r' = r2" by (simp add: p)
      next
        fix w assume w: "res2 = Inr w"
        obtain val gs' n2 where w': "w = (val, gs', n2)" by (cases w)
        obtain res3 r3 where
          c3: "construct_pairs (CommonLoader i c) ps (AList.update (current key) val m) n2 r2
                 = (res3, r3)"
          by (cases "construct_pairs (CommonLoader i c) ps (AList.update (current key) val m) n2 r2")
        then have l3: "log_ok i c res3 r2 r3" by (rule Cons.IH)
        from Cons.prems c1 v v' True c2 w w' c3
        have "r' = r3" and "\<And>e. res3 = Inl e \<longleftrightarrow> res = Inl e"
          by (auto simp: p split: sum.splits)
        with l3 show "log_ok i c res r2 r'" by (auto intro: log_ok_cong)
      qed
    qed
  qed
qed

lemma run_generator_log:
  assumes "run_generator (CommonLoader i c) g next r = (res, r')"
  shows "log_ok i c res r r'"
proof (cases g)
  case (SeqGenerator j ns)
  obtain res1 r1 where c1: "construct_items (CommonLoader i c) ns next r = (res1, r1)"
    by (cases "construct_items (CommonLoader i c) ns next r")
  then have l1: "log_ok i c res1 r r1" by (rule construct_items_log)
  show ?thesis
  proof (rule log_ok_bind [OF l1])
    fix e assume "res1 = Inl e"
    with assms c1 show "res = Inl e \<and> r' = r1" by (simp add: SeqGenerator)
  next
    fix v assume v: "res1 = Inr v"
    obtain data gs n1 where v': "v = (data, gs, n1)" by (cases v)
    obtain res2 r2 where c2: "construct_sequence_cells (CommonLoader i c) data r1 = (res2, r2)"
      by (cases "construct_sequence_cells (CommonLoader i c) data r1")
    then have l2: "log_ok i c res2 r1 r2" by (rule construct_sequence_cells_log)
    from assms c1 v v' c2 have "r' = r2" and "\<And>e. res2 = Inl e \<longleftrightarrow> res = Inl e"
      by (auto simp: SeqGenerator split: sum.splits)
    with l2 show "log_ok i c res r1 r'" by (auto intro: log_ok_cong)
  qed
next
  case (MapGenerator j ps)
  obtain res1 r1 where c1: "construct_pairs (CommonLoader i c) ps [] next r = (res1, r1)"
    by (cases "construct_pairs (CommonLoader i c) ps [] next r")
  then have l1: "log_ok i c res1 r r1" by (rule construct_pairs_log)
  show ?thesis
  proof (rule log_ok_bind [OF l1])
    fix e assume "res1 = Inl e"
    with assms c1 show "res = Inl e \<and> r' = r1" by (simp add: MapGenerator)
  next
    fix v assume v: "res1 = Inr v"
    obtain data gs n1 where v': "v = (data, gs, n1)" by (cases v)
    obtain res2 r2 where c2: "construct_mapping_cells (CommonLoader i c) data r1 = (res2, r2)"
      by (cases "construct_mapping_cells (CommonLoader i c) data r1")
    then have l2: "log_ok i c res2 r1 r2" by (rule construct_mapping_cells_log)
    from assms c1 v v' c2 have "r' = r2" and "\<And>e. res2 = Inl e \<longleftrightarrow> res = Inl e"
      by (auto simp: MapGenerator split: sum.splits)
    with l2 show "log_ok i c res r1 r'" by (auto intro: log_ok_cong)
  qed
qed

lemma run_generators_log:
  "run_generators L gs filled next r = (res, r') \<Longrightarrow> L = CommonLoader i c \<Longrightarrow>
   log_ok i c res r r'"
proof (induction L gs filled "next" r rule: run_generators.induct)
  case (1 L filled nxt resolved)
  then show ?case by (auto intro: log_ok_refl)
next
  case (2 L g gs filled nxt resolved)
  obtain res1 r1 where c1: "run_generator L g nxt resolved = (res1, r1)"
    by (cases "run_generator L g nxt resolved")
  with "2.prems"(2) have l1: "log_ok i c res1 resolved r1" by (auto intro: run_generator_log)
  show ?case
  proof (rule log_ok_bind [OF l1])
    fix e assume "res1 = Inl e"
    with "2.prems"(1) c1 show "res = Inl e \<and> r' = r1" by simp
  next
    fix v assume v: "res1 = Inr v"
    obtain cont new n1 where v': "v = (cont, new, n1)" by (cases v)
    from "2.prems"(1) c1 v v'
    have run: "run_generators L (gs @ new) (filled @ [cont]) n1 r1 = (res, r')" by simp
    have split: "(cont, (new, n1)) = v" by (simp add: v')
    from "2.IH" [OF c1 [symmetric] v split refl run "2.prems"(2)]
    show "log_ok i c res r1 r'" .
  qed
qed

lemma construct_document_log:
  assumes "construct_document (CommonLoader i c) n r = (res, r')"
  shows "log_ok i c res r r'"
proof -
  obtain res1 r1 where c1: "construct_object (CommonLoader i c) n 0 r = (res1, r1)"
    by (cases "construct_object (CommonLoader i c) n 0 r")
  then have l1: "log_ok i c res1 r r1" by (rule construct_object_log)
  show ?thesis
  proof (rule log_ok_bind [OF l1])
    fix e assume "res1 = Inl e"
    with assms c1 show "res = Inl e \<and> r' = r1" by (simp add: construct_document_def)
  next
    fix v assume v: "res1 = Inr v"
    obtain data gs n1 where v': "v = (data, gs, n1)" by (cases v)
    obtain res2 r2 where c2: "run_generators (CommonLoader i c) gs [] n1 r1 = (res2, r2)"
      by (cases "run_generators (CommonLoader i c) gs [] n1 r1")
    then have l2: "log_ok i c res2 r1 r2" by (auto intro: run_generators_log)
    from assms c1 v v' c2 have "r' = r2" and "\<And>e. res2 = Inl e \<longleftrightarrow> res = Inl e"
      by (auto simp: construct_document_def split: sum.splits)
    with l2 show "log_ok i c res r1 r'" by (auto intro: log_ok_cong)
  qed
qed

subsection \<open>The structural merge of a mapping\<close>

lemma dict_get_Some: "map_of d k = Some v \<Longrightarrow> dict_get d k = v"
  by (simp add: dict_get_def)

lemma dict_get_None: "map_of d k = None \<Longrightarrow> dict_get d k = VNone"
  by (simp add: dict_get_def)




text \<open>
  C10. A parsed mapping whose reserved merge key is present with an empty or otherwise falsy
  value: \<open>construct_mapping\<close> returns the mapping without the merge key and with every
  other entry unchanged; it raises nothing, and it makes no call of \<open>_GetData\<close> (the record
  of calls is unchanged), whatever the common data is, absent common data included.
\<close>

theorem construct_mapping_falsy_merge_key:
  assumes "map_of data (VStr MERGE_MACRO) = Some v" and "\<not> truthy v"
  shows "construct_mapping (CommonLoader impl_path common_data) data resolved
           = (Inr (AList.delete (VStr MERGE_MACRO) data), resolved)
         \<and> map_of (AList.delete (VStr MERGE_MACRO) data) (VStr MERGE_MACRO) = None
         \<and> (\<forall>k. k \<noteq> VStr MERGE_MACRO \<longrightarrow>
               map_of (AList.delete (VStr MERGE_MACRO) data) k = map_of data k)"
  using assms by (simp add: dict_get_Some delete_conv)

theorem construct_mapping_falsy_merge_key_witness:
  "construct_mapping (CommonLoader ''surface/run.yaml'' VNone)
      [(VStr ''_COMMON_'', VStr ''''), (VStr ''i'', VStr ''j'')] []
     = (Inr [(VStr ''i'', VStr ''j'')], [])
   \<and> construct_mapping (CommonLoader ''surface/run.yaml'' (VDict [(VStr ''foo'', VInt 1)]))
      [(VStr ''i'', VStr ''j''), (VStr ''_COMMON_'', VNone)] [''foo'']
     = (Inr [(VStr ''i'', VStr ''j'')], [''foo''])"
proof -
  have 1: "map_of [(VStr ''_COMMON_'', VStr ''''), (VStr ''i'', VStr ''j'')] (VStr MERGE_MACRO)
             = Some (VStr '''')"
    by (simp add: MERGE_MACRO_def)
  have 2: "map_of [(VStr ''i'', VStr ''j''), (VStr ''_COMMON_'', VNone)] (VStr MERGE_MACRO)
             = Some VNone"
    by (simp add: MERGE_MACRO_def)
  have f1: "\<not> truthy (VStr '''')" and f2: "\<not> truthy VNone" by simp_all
  from construct_mapping_falsy_merge_key [OF 1 f1, of "''surface/run.yaml''" VNone "[]"]
       construct_mapping_falsy_merge_key [OF 2 f2, of "''surface/run.yaml''"
         "VDict [(VStr ''foo'', VInt 1)]" "[''foo'']"]
  show ?thesis by (simp add: MERGE_MACRO_def AList.delete_eq)
qed







subsection \<open>The methods during a parse are the methods on the data they find\<close>

lemma current_dict_update:
  "current_dict (AList.update k (Done v) d) = AList.update k v (current_dict d)"
  by (induction d) (auto simp: current_dict_def)

lemma current_dict_delete:
  "current_dict (AList.delete k d) = AList.delete k (current_dict d)"
  by (induction d) (auto simp: current_dict_def)

lemma map_of_current_dict:
  "map_of (current_dict d) k = map_option current (map_of d k)"
  by (induction d) (auto simp: current_dict_def)

lemma update_elements_cells_current:
  "update_elements (current_dict d) xs = map_sum id current_dict (update_elements_cells d xs)"
  by (induction xs arbitrary: d) (auto simp: current_dict_update [symmetric] split: sum.splits)

lemma update_entries_cells_current:
  "update_entries (current_dict d) other
     = current_dict (fold (\<lambda>(k, v). AList.update k (Done v)) other d)"
  unfolding update_entries_def
  by (induction other arbitrary: d) (auto simp: current_dict_update [symmetric])

lemma dict_update_cells_current:
  "dict_update (current_dict d) v = map_sum id current_dict (dict_update_cells d v)"
  by (cases v) (simp_all add: update_elements_cells_current update_entries_cells_current)

lemma update_from_paths_cells_current:
  "update_from_paths i c (current_dict d) paths r
     = apfst (map_sum id current_dict) (update_from_paths_cells i c d paths r)"
proof (induction paths arbitrary: d r)
  case Nil
  show ?case by simp
next
  case (Cons p paths)
  show ?case
  proof (cases "GetData i c p")
    case (Inl e)
    then show ?thesis by simp
  next
    case (Inr v)
    show ?thesis
    proof (cases "dict_update_cells d v")
      case (Inl e)
      with Inr show ?thesis by (simp add: dict_update_cells_current)
    next
      case inr: (Inr d')
      with Inr Cons.IH [of d' "r @ [p]"] show ?thesis
        by (simp add: dict_update_cells_current)
    qed
  qed
qed

text \<open>
  \<open>construct_mapping\<close> as it runs during a parse is \<open>construct_mapping\<close> on the
  dictionary it is given, nested collections empty.
\<close>

lemma construct_mapping_cells_current:
  "construct_mapping L (current_dict data) r
     = apfst (map_sum id current_dict) (construct_mapping_cells L data r)"
proof (cases L)
  case PlainLoader
  then show ?thesis by simp
next
  case (CommonLoader i c)
  have get: "dict_get (current_dict data) (VStr MERGE_MACRO)
      = (case map_of data (VStr MERGE_MACRO) of None \<Rightarrow> VNone | Some cl \<Rightarrow> current cl)"
    by (simp add: dict_get_def map_of_current_dict split: option.splits)
  show ?thesis
    unfolding CommonLoader construct_mapping.simps construct_mapping_cells.simps get Let_def
      current_dict_delete [symmetric]
    by (simp add: update_from_paths_cells_current split: pyval.splits)
qed

lemma list_extend_cells_current:
  "list_extend (map current l) v = map_sum id (map current) (list_extend_cells l v)"
  by (cases v) (simp_all add: comp_def)

lemma extend_from_paths_cells_current:
  "extend_from_paths i c (map current l) paths r
     = apfst (map_sum id (map current)) (extend_from_paths_cells i c l paths r)"
proof (induction paths arbitrary: l r)
  case Nil
  show ?case by simp
next
  case (Cons p paths)
  show ?case
  proof (cases "GetData i c p")
    case (Inl e)
    then show ?thesis by simp
  next
    case (Inr v)
    show ?thesis
    proof (cases "list_extend_cells l v")
      case (Inl e)
      with Inr show ?thesis by (simp add: list_extend_cells_current)
    next
      case inr: (Inr l')
      with Inr Cons.IH [of l' "r @ [p]"] show ?thesis
        by (simp add: list_extend_cells_current)
    qed
  qed
qed

lemma sequence_items_cells_current:
  "sequence_items i c (map current data) (map current new_list) r
     = apfst (map_sum id (map current)) (sequence_items_cells i c data new_list r)"
proof (induction data arbitrary: new_list r)
  case Nil
  show ?case by simp
next
  case (Cons x data)
  show ?case
  proof (cases "is_merge_item (current x)")
    case False
    with Cons.IH [of "new_list @ [x]" r] show ?thesis by simp
  next
    case True
    obtain res r1 where e: "extend_from_paths_cells i c new_list (merge_item_paths (current x)) r
        = (res, r1)"
      by (cases "extend_from_paths_cells i c new_list (merge_item_paths (current x)) r")
    show ?thesis
    proof (cases res)
      case (Inl err)
      with True e show ?thesis by (simp add: extend_from_paths_cells_current)
    next
      case (Inr l')
      with True e Cons.IH [of l' r1] show ?thesis
        by (simp add: extend_from_paths_cells_current)
    qed
  qed
qed

text \<open>The same for \<open>construct_sequence\<close>.\<close>

lemma construct_sequence_cells_current:
  "construct_sequence L (map current data) r
     = apfst (map_sum id (map current)) (construct_sequence_cells L data r)"
proof (cases L)
  case PlainLoader
  then show ?thesis by simp
next
  case (CommonLoader i c)
  with sequence_items_cells_current [of i c data "[]" r] show ?thesis by simp
qed

text \<open>
  A sequence under the merge key is still empty when \<open>construct_mapping\<close> pops it, so it
  is dropped with nothing resolved, while the sequence under another key is filled
  afterwards.
\<close>

lemma merge_key_collection_is_dropped:
  "construct_document (CommonLoader ''surface/run.yaml'' (VDict [(VStr ''foo'', VInt 1)]))
     (MappingNode [(PlainScalar (VStr ''_COMMON_''), SequenceNode [PlainScalar (VStr ''foo'')]),
                   (PlainScalar (VStr ''i''), SequenceNode [PlainScalar (VStr ''j'')])]) []
   = (Inr (VDict [(VStr ''i'', VList [VStr ''j''])]), [])"
  by (simp add: construct_document_def MERGE_MACRO_def lookup_from_def Let_def
        AList.update.simps AList.delete_eq)

subsection \<open>Documents without markers parse as with the plain loader\<close>

lemma construct_object_marker_free:
  "marker_free n \<Longrightarrow>
   construct_object (CommonLoader i c) n next r = construct_object PlainLoader n next r"
  by (cases n) simp_all

lemma plain_object_cell:
  assumes "construct_object PlainLoader n next r = (Inr (cl, gs, next'), r')"
  shows "(\<not> merge_marker_item n \<longrightarrow> \<not> is_merge_item (current cl))
       \<and> (\<not> merge_marker_key n \<longrightarrow> current cl \<noteq> VStr MERGE_MACRO)
       \<and> (marker_free n \<longrightarrow> (\<forall>g\<in>set gs. gen_marker_free g))"
  using assms by (cases n) auto

lemma construct_items_marker_free:
  "marker_free_items ns \<Longrightarrow>
   construct_items (CommonLoader i c) ns next r = construct_items PlainLoader ns next r"
proof (induction ns arbitrary: "next" r)
  case Nil
  show ?case by simp
next
  case (Cons n ns)
  from Cons.prems have "marker_free n" and "marker_free_items ns" by simp_all
  then show ?case
    by (simp add: construct_object_marker_free Cons.IH split: prod.splits sum.splits)
qed

lemma construct_pairs_marker_free:
  "marker_free_pairs ps \<Longrightarrow>
   construct_pairs (CommonLoader i c) ps m next r = construct_pairs PlainLoader ps m next r"
proof (induction ps arbitrary: m "next" r)
  case Nil
  show ?case by simp
next
  case (Cons p ps)
  obtain kn vn where p: "p = (kn, vn)" by (cases p)
  from Cons.prems have "marker_free kn" and "marker_free vn" and "marker_free_pairs ps"
    by (simp_all add: p)
  then show ?case
    by (simp add: p construct_object_marker_free Cons.IH split: prod.splits sum.splits)
qed

lemma plain_items_cells:
  "construct_items PlainLoader ns next r = (Inr (cs, gs, next'), r') \<Longrightarrow>
   marker_free_items ns \<Longrightarrow>
   (\<forall>cl\<in>set cs. \<not> is_merge_item (current cl)) \<and> (\<forall>g\<in>set gs. gen_marker_free g)"
proof (induction ns arbitrary: "next" r cs gs next' r')
  case Nil
  then show ?case by simp
next
  case (Cons n ns)
  from Cons.prems(1) obtain cl g1 n1 r1 cs' g2 where
    1: "construct_object PlainLoader n next r = (Inr (cl, g1, n1), r1)"
    and 2: "construct_items PlainLoader ns n1 r1 = (Inr (cs', g2, next'), r')"
    and cs: "cs = cl # cs'" and gs: "gs = g1 @ g2"
    by (auto split: prod.splits sum.splits)
  from Cons.prems(2) have mf: "marker_free n" and nm: "\<not> merge_marker_item n"
    and rest: "marker_free_items ns" by simp_all
  from plain_object_cell [OF 1] mf nm Cons.IH [OF 2 rest] show ?case
    by (auto simp: cs gs)
qed

lemma plain_pairs_cells:
  "construct_pairs PlainLoader ps m next r = (Inr (m', gs, next'), r') \<Longrightarrow>
   marker_free_pairs ps \<Longrightarrow> map_of m (VStr MERGE_MACRO) = None \<Longrightarrow>
   map_of m' (VStr MERGE_MACRO) = None \<and> (\<forall>g\<in>set gs. gen_marker_free g)"
proof (induction ps arbitrary: m "next" r gs)
  case Nil
  then show ?case by simp
next
  case (Cons p ps)
  obtain kn vn where p: "p = (kn, vn)" by (cases p)
  from Cons.prems(1) obtain k g1 n1 r1 v g2 n2 r2 g3 where
    1: "construct_object PlainLoader kn next r = (Inr (k, g1, n1), r1)"
    and 2: "construct_object PlainLoader vn n1 r1 = (Inr (v, g2, n2), r2)"
    and 3: "construct_pairs PlainLoader ps (AList.update (current k) v m) n2 r2
              = (Inr (m', g3, next'), r')"
    and gs: "gs = g1 @ g2 @ g3"
    by (auto simp: p split: prod.splits sum.splits if_splits)
  from Cons.prems(2) have mk: "marker_free kn" and nk: "\<not> merge_marker_key kn"
    and mv: "marker_free vn" and rest: "marker_free_pairs ps"
    by (simp_all add: p)
  from plain_object_cell [OF 1] nk have "current k \<noteq> VStr MERGE_MACRO" by simp
  with Cons.prems(3) have "map_of (AList.update (current k) v m) (VStr MERGE_MACRO) = None"
    by (simp add: update_conv')
  from Cons.IH [OF 3 rest this] plain_object_cell [OF 1] plain_object_cell [OF 2] mk mv
  show ?case by (auto simp: gs)
qed

lemma sequence_items_cells_no_merge:
  "\<forall>cl\<in>set data. \<not> is_merge_item (current cl) \<Longrightarrow>
   sequence_items_cells i c data new_list r = (Inr (new_list @ data), r)"
  by (induction data arbitrary: new_list) simp_all

lemma construct_mapping_cells_no_merge_key:
  assumes "map_of data (VStr MERGE_MACRO) = None"
  shows "construct_mapping_cells (CommonLoader i c) data r = (Inr data, r)"
proof -
  from assms have "VStr MERGE_MACRO \<notin> fst ` set data" by (simp add: map_of_eq_None_iff)
  then have "AList.delete (VStr MERGE_MACRO) data = data" by (rule delete_id)
  with assms show ?thesis by simp
qed

lemma run_generator_marker_free:
  assumes "gen_marker_free g"
  shows "run_generator (CommonLoader i c) g next r = run_generator PlainLoader g next r"
proof (cases g)
  case (SeqGenerator j ns)
  with assms have mf: "marker_free_items ns" by simp
  obtain res r1 where c1: "construct_items PlainLoader ns next r = (res, r1)"
    by (cases "construct_items PlainLoader ns next r")
  show ?thesis
  proof (cases res)
    case (Inl e)
    with c1 mf show ?thesis by (simp add: SeqGenerator construct_items_marker_free)
  next
    case (Inr v)
    obtain data gs n1 where v: "v = (data, gs, n1)" by (cases v)
    from plain_items_cells [OF c1 [unfolded Inr v] mf]
    have "construct_sequence_cells (CommonLoader i c) data r1 = (Inr data, r1)"
      by (simp add: sequence_items_cells_no_merge)
    with c1 Inr v mf show ?thesis by (simp add: SeqGenerator construct_items_marker_free)
  qed
next
  case (MapGenerator j ps)
  with assms have mf: "marker_free_pairs ps" by simp
  obtain res r1 where c1: "construct_pairs PlainLoader ps [] next r = (res, r1)"
    by (cases "construct_pairs PlainLoader ps [] next r")
  show ?thesis
  proof (cases res)
    case (Inl e)
    with c1 mf show ?thesis by (simp add: MapGenerator construct_pairs_marker_free)
  next
    case (Inr v)
    obtain data gs n1 where v: "v = (data, gs, n1)" by (cases v)
    from plain_pairs_cells [OF c1 [unfolded Inr v] mf]
    have "map_of data (VStr MERGE_MACRO) = None" by simp
    then have "construct_mapping_cells (CommonLoader i c) data r1 = (Inr data, r1)"
      by (rule construct_mapping_cells_no_merge_key)
    with c1 Inr v mf show ?thesis by (simp add: MapGenerator construct_pairs_marker_free)
  qed
qed

lemma plain_generator_children:
  assumes "run_generator PlainLoader g next r = (Inr (cont, new, next'), r')"
    and "gen_marker_free g"
  shows "\<forall>g'\<in>set new. gen_marker_free g'"
proof (cases g)
  case (SeqGenerator j ns)
  with assms(1) obtain data r1 where
    "construct_items PlainLoader ns next r = (Inr (data, new, next'), r1)"
    by (auto split: prod.splits sum.splits)
  from plain_items_cells [OF this] assms(2) show ?thesis by (simp add: SeqGenerator)
next
  case (MapGenerator j ps)
  with assms(1) obtain data r1 where
    "construct_pairs PlainLoader ps [] next r = (Inr (data, new, next'), r1)"
    by (auto split: prod.splits sum.splits)
  from plain_pairs_cells [OF this] assms(2) show ?thesis by (simp add: MapGenerator)
qed

lemma run_generators_marker_free:
  "\<forall>g\<in>set gs. gen_marker_free g \<Longrightarrow> L = PlainLoader \<Longrightarrow>
   run_generators (CommonLoader i c) gs filled next r = run_generators L gs filled next r"
proof (induction L gs filled "next" r rule: run_generators.induct)
  case (1 L filled nxt resolved)
  show ?case by simp
next
  case (2 L g gs filled nxt resolved)
  from "2.prems" have g: "gen_marker_free g" and gs: "\<forall>g\<in>set gs. gen_marker_free g"
    and L: "L = PlainLoader" by simp_all
  have eq: "run_generator (CommonLoader i c) g nxt resolved = run_generator L g nxt resolved"
    unfolding L using g by (rule run_generator_marker_free)
  obtain res1 r1 where c1: "run_generator L g nxt resolved = (res1, r1)"
    by (cases "run_generator L g nxt resolved")
  show ?case
  proof (cases res1)
    case (Inl e)
    with eq c1 show ?thesis by simp
  next
    case (Inr v)
    obtain cont new n1 where v: "v = (cont, new, n1)" by (cases v)
    from c1 Inr v L g have "\<forall>g'\<in>set new. gen_marker_free g'"
      by (auto dest: plain_generator_children)
    with gs have all: "\<forall>g\<in>set (gs @ new). gen_marker_free g" by auto
    have split: "(cont, (new, n1)) = v" by (simp add: v)
    from "2.IH" [OF c1 [symmetric] Inr split refl all L]
    have "run_generators (CommonLoader i c) (gs @ new) (filled @ [cont]) n1 r1
            = run_generators L (gs @ new) (filled @ [cont]) n1 r1" .
    with eq c1 Inr v show ?thesis by simp
  qed
qed

lemma construct_document_marker_free:
  assumes "marker_free document"
  shows "construct_document (CommonLoader i c) document r = construct_document PlainLoader document r"
proof -
  have eq: "construct_object (CommonLoader i c) document 0 r
              = construct_object PlainLoader document 0 r"
    using assms by (rule construct_object_marker_free)
  obtain res1 r1 where c1: "construct_object PlainLoader document 0 r = (res1, r1)"
    by (cases "construct_object PlainLoader document 0 r")
  show ?thesis
  proof (cases res1)
    case (Inl e)
    with eq c1 show ?thesis by (simp add: construct_document_def)
  next
    case (Inr v)
    obtain data gs n1 where v: "v = (data, gs, n1)" by (cases v)
    from plain_object_cell [OF c1 [unfolded Inr v]] assms
    have "\<forall>g\<in>set gs. gen_marker_free g" by simp
    then have "run_generators (CommonLoader i c) gs [] n1 r1
                 = run_generators PlainLoader gs [] n1 r1"
      by (rule run_generators_marker_free) simp
    with eq c1 Inr v show ?thesis by (simp add: construct_document_def)
  qed
qed

text \<open>
  C7. A document with no include marker and no merge marker: parsing it with the loader of
  \<open>CreateYamlLoader\<close>, whatever the source file and the common data, gives what parsing
  it with the plain \<open>yaml.Loader\<close> gives, the same value or the same exception.
\<close>

theorem marker_free_parses_identically:
  "marker_free document \<Longrightarrow>
   yaml_load (CommonLoader impl_path common_data) document = yaml_load PlainLoader document"
  by (simp add: yaml_load_def construct_document_marker_free)

theorem marker_free_parses_identically_witness:
  "yaml_load (CommonLoader ''surface/run.yaml'' VNone)
     (MappingNode [(PlainScalar (VStr ''bar''),
                    SequenceNode [PlainScalar (VStr ''x''),
                                  MappingNode [(PlainScalar (VStr ''i''), PlainScalar (VInt 3))]])])
   = Inr (VDict [(VStr ''bar'', VList [VStr ''x'', VDict [(VStr ''i'', VInt 3)]])])
   \<and> yaml_load PlainLoader
     (MappingNode [(PlainScalar (VStr ''bar''),
                    SequenceNode [PlainScalar (VStr ''x''),
                                  MappingNode [(PlainScalar (VStr ''i''), PlainScalar (VInt 3))]])])
   = Inr (VDict [(VStr ''bar'', VList [VStr ''x'', VDict [(VStr ''i'', VInt 3)]])])"
proof -
  let ?doc = "MappingNode [(PlainScalar (VStr ''bar''),
                    SequenceNode [PlainScalar (VStr ''x''),
                                  MappingNode [(PlainScalar (VStr ''i''), PlainScalar (VInt 3))]])]"
  have mf: "marker_free ?doc" by (simp add: MERGE_MACRO_def)
  have "yaml_load PlainLoader ?doc
          = Inr (VDict [(VStr ''bar'', VList [VStr ''x'', VDict [(VStr ''i'', VInt 3)]])])"
    by (simp add: yaml_load_def construct_document_def lookup_from_def Let_def
          AList.update.simps)
  with marker_free_parses_identically [OF mf, of "''surface/run.yaml''" VNone]
  show ?thesis by simp
qed

subsection \<open>Failing references to the common data\<close>

lemma GetData_no_common:
  "\<not> truthy common_data \<Longrightarrow>
   GetData impl_path common_data attribute_path
     = Inl (LayoutException (''Command ['' @ impl_path
              @ ''] references common command data but it does not exist.''))"
  by (simp add: GetData_def)

lemma GetData_walk_append:
  "GetData_walk i p v (xs @ ys)
     = (case GetData_walk i p v xs of Inl e \<Rightarrow> Inl e | Inr v' \<Rightarrow> GetData_walk i p v' ys)"
  by (induction xs arbitrary: v) (auto simp: Let_def split: pyval.splits)

lemma GetData_missing_segment:
  assumes "truthy common_data"
    and "n < length (py_split CHR ''.'' attribute_path)"
    and "GetData_walk impl_path attribute_path common_data
           (take n (py_split CHR ''.'' attribute_path)) = Inr (VDict d)"
    and "\<not> truthy (dict_get d (VStr (py_split CHR ''.'' attribute_path ! n)))"
  shows "GetData impl_path common_data attribute_path
     = Inl (LayoutException (''Command ['' @ impl_path
              @ ''] references common command data attribute [''
              @ py_split CHR ''.'' attribute_path ! n @ ''] in path ['' @ attribute_path
              @ ''] but it does not exist.''))"
proof -
  let ?segs = "py_split CHR ''.'' attribute_path"
  have segs: "?segs = take n ?segs @ (?segs ! n # drop (Suc n) ?segs)"
    using assms(2) by (simp add: id_take_nth_drop [symmetric])
  have "GetData impl_path common_data attribute_path
          = GetData_walk impl_path attribute_path common_data ?segs"
    using assms(1) by (simp add: GetData_def)
  also have "\<dots> = GetData_walk impl_path attribute_path common_data
                      (take n ?segs @ (?segs ! n # drop (Suc n) ?segs))"
    using segs by simp
  also have "\<dots> = GetData_walk impl_path attribute_path (VDict d) (?segs ! n # drop (Suc n) ?segs)"
    unfolding GetData_walk_append using assms(3) by simp
  also have "\<dots> = Inl (LayoutException (''Command ['' @ impl_path
              @ ''] references common command data attribute [''
              @ ?segs ! n @ ''] in path ['' @ attribute_path
              @ ''] but it does not exist.''))"
    using assms(4) by simp
  finally show ?thesis .
qed

text \<open>
  C6, as stated, does not hold: it has every such failure identify the source file and the
  attribute path. With the common data absent, the include \<open>!COMMON foo.a\<close> in
  surface/run.yaml fails the parse with a LayoutException whose message names the source
  file only; the attribute path \<open>foo.a\<close> does not occur in it.
\<close>

theorem missing_common_data_message_counterexample:
  "yaml_load (CommonLoader ''surface/run.yaml'' VNone)
     (MappingNode [(PlainScalar (VStr ''bar''), TaggedScalar ''!COMMON'' ''foo.a'')])
   = Inl (LayoutException
       ''Command [surface/run.yaml] references common command data but it does not exist.'')
   \<and> \<not> sublist ''foo.a''
       ''Command [surface/run.yaml] references common command data but it does not exist.''"
proof
  show "yaml_load (CommonLoader ''surface/run.yaml'' VNone)
     (MappingNode [(PlainScalar (VStr ''bar''), TaggedScalar ''!COMMON'' ''foo.a'')])
   = Inl (LayoutException
       ''Command [surface/run.yaml] references common command data but it does not exist.'')"
    by (simp add: yaml_load_def construct_document_def INCLUDE_MACRO_def GetData_def)
  show "\<not> sublist ''foo.a''
       ''Command [surface/run.yaml] references common command data but it does not exist.''"
    by code_simp
qed

text \<open>
  C6, amended. Take a parse of a document, the nodes constructed in the order of the
  library, during which an include or merge marker is resolved, that is \<open>_GetData\<close> is
  called with some attribute path. If the common data is absent (or falsy), the result of
  the whole parse is the LayoutException that names the source file. If a dot-separated
  segment of the path is looked up in a mapping that lacks it or holds a falsy value for
  it, the result of the whole parse is the LayoutException that names the source file, the
  segment and the attribute path. In both cases the parse returns the exception and no
  document.
\<close>

theorem resolution_failure_aborts_parse:
  assumes "construct_document (CommonLoader impl_path common_data) document [] = (res, resolved)"
    and "attribute_path \<in> set resolved"
  shows "yaml_load (CommonLoader impl_path common_data) document = res
     \<and> (\<not> truthy common_data \<longrightarrow>
          res = Inl (LayoutException (''Command ['' @ impl_path
                  @ ''] references common command data but it does not exist.'')))
     \<and> (\<forall>n d. truthy common_data \<and> n < length (py_split CHR ''.'' attribute_path)
            \<and> GetData_walk impl_path attribute_path common_data
                  (take n (py_split CHR ''.'' attribute_path)) = Inr (VDict d)
            \<and> \<not> truthy (dict_get d (VStr (py_split CHR ''.'' attribute_path ! n)))
          \<longrightarrow> res = Inl (LayoutException (''Command ['' @ impl_path
                  @ ''] references common command data attribute [''
                  @ py_split CHR ''.'' attribute_path ! n @ ''] in path ['' @ attribute_path
                  @ ''] but it does not exist.'')))"
proof -
  from assms(1) have "log_ok impl_path common_data res [] resolved"
    by (rule construct_document_log)
  with assms(2) have abort: "\<And>e. GetData impl_path common_data attribute_path = Inl e \<Longrightarrow> res = Inl e"
    unfolding log_ok_def by auto
  have 1: "yaml_load (CommonLoader impl_path common_data) document = res"
    using assms(1) by (simp add: yaml_load_def)
  have 2: "\<not> truthy common_data \<longrightarrow>
          res = Inl (LayoutException (''Command ['' @ impl_path
                  @ ''] references common command data but it does not exist.''))"
    using abort GetData_no_common by blast
  have 3: "\<forall>n d. truthy common_data \<and> n < length (py_split CHR ''.'' attribute_path)
            \<and> GetData_walk impl_path attribute_path common_data
                  (take n (py_split CHR ''.'' attribute_path)) = Inr (VDict d)
            \<and> \<not> truthy (dict_get d (VStr (py_split CHR ''.'' attribute_path ! n)))
          \<longrightarrow> res = Inl (LayoutException (''Command ['' @ impl_path
                  @ ''] references common command data attribute [''
                  @ py_split CHR ''.'' attribute_path ! n @ ''] in path ['' @ attribute_path
                  @ ''] but it does not exist.''))"
    using abort GetData_missing_segment by blast
  from 1 2 3 show ?thesis by blast
qed

theorem resolution_failure_aborts_parse_witness:
  "yaml_load (CommonLoader ''surface/run.yaml'' VNone)
     (MappingNode [(PlainScalar (VStr ''i''), PlainScalar (VStr ''j'')),
                   (PlainScalar (VStr ''_COMMON_''), PlainScalar (VStr ''foo''))])
   = Inl (LayoutException
       ''Command [surface/run.yaml] references common command data but it does not exist.'')
   \<and> yaml_load (CommonLoader ''surface/run.yaml'' (VDict [(VStr ''foo'', VInt 1)]))
     (SequenceNode [MappingNode [(PlainScalar (VStr ''x''), TaggedScalar ''!COMMON'' ''nope1'')],
                    PlainScalar (VStr ''_COMMON_nope2'')])
   = Inl (LayoutException
       (''Command [surface/run.yaml] references common command data attribute [nope2] in ''
        @ ''path [nope2] but it does not exist.''))"
proof -
  let ?doc1 = "MappingNode [(PlainScalar (VStr ''i''), PlainScalar (VStr ''j'')),
                   (PlainScalar (VStr ''_COMMON_''), PlainScalar (VStr ''foo''))]"
  let ?common = "VDict [(VStr ''foo'', VInt 1)]"
  let ?doc2 = "SequenceNode [MappingNode [(PlainScalar (VStr ''x''),
                                           TaggedScalar ''!COMMON'' ''nope1'')],
                             PlainScalar (VStr ''_COMMON_nope2'')]"
  obtain res1 where p1: "construct_document (CommonLoader ''surface/run.yaml'' VNone) ?doc1 []
      = (res1, [''foo''])"
    by (simp add: construct_document_def MERGE_MACRO_def GetData_def AList.update.simps
          AList.delete_eq)
  have m1: "''foo'' \<in> set [''foo'']" by simp
  have f1: "\<not> truthy VNone" by simp
  obtain res2 where p2: "construct_document (CommonLoader ''surface/run.yaml'' ?common) ?doc2 []
      = (res2, [''nope2''])"
    by (simp add: construct_document_def MERGE_MACRO_def GetData_def dict_get_def)
  have m2: "''nope2'' \<in> set [''nope2'']" by simp
  have sp: "py_split CHR ''.'' ''nope2'' = [''nope2'']" by simp
  have h2: "truthy ?common \<and> 0 < length (py_split CHR ''.'' ''nope2'')
            \<and> GetData_walk ''surface/run.yaml'' ''nope2'' ?common
                  (take 0 (py_split CHR ''.'' ''nope2'')) = Inr (VDict [(VStr ''foo'', VInt 1)])
            \<and> \<not> truthy (dict_get [(VStr ''foo'', VInt 1)]
                            (VStr (py_split CHR ''.'' ''nope2'' ! 0)))"
    unfolding sp by (simp add: dict_get_def)
  from resolution_failure_aborts_parse [OF p1 m1] f1
  have a: "yaml_load (CommonLoader ''surface/run.yaml'' VNone) ?doc1
      = Inl (LayoutException
       ''Command [surface/run.yaml] references common command data but it does not exist.'')"
    by simp
  from resolution_failure_aborts_parse [OF p2 m2, THEN conjunct2, THEN conjunct2, rule_format,
         OF h2]
       resolution_failure_aborts_parse [OF p2 m2, THEN conjunct1]
  have b: "yaml_load (CommonLoader ''surface/run.yaml'' ?common) ?doc2
      = Inl (LayoutException
       (''Command [surface/run.yaml] references common command data attribute [nope2] in ''
        @ ''path [nope2] but it does not exist.''))"
    unfolding sp by simp
  from a b show ?thesis by simp
qed

subsection \<open>Loading the common data\<close>

text \<open>
  C4, as stated, does not hold: there is no cache keyed by directory. Loading two spec files
  of the directory surface one after the other, with one record of the files read, reads
  and parses surface/__init__.yaml twice.
\<close>

theorem common_data_reloaded_counterexample:
  "snd (CreateYamlLoader
          (map_of [(''surface/__init__.yaml'',
                    MappingNode [(PlainScalar (VStr ''foo''), PlainScalar (VStr ''x''))])])
          ''surface/list.yaml''
          (snd (CreateYamlLoader
                  (map_of [(''surface/__init__.yaml'',
                            MappingNode [(PlainScalar (VStr ''foo''), PlainScalar (VStr ''x''))])])
                  ''surface/run.yaml'' [])))
     = [''surface/__init__.yaml'', ''surface/__init__.yaml'']
   \<and> \<not> count_list [''surface/__init__.yaml'', ''surface/__init__.yaml'']
           ''surface/__init__.yaml'' \<le> 1"
  by (simp add: CreateYamlLoader_def dirname_def path_join_def yaml_load_def
        construct_document_def Let_def)

text \<open>
  C4, amended. One call of \<open>CreateYamlLoader\<close> reads and parses the \<open>__init__.yaml\<close>
  of the directory of the spec file at most once: once if the file exists, not at all
  otherwise. The loader it returns holds the parsed common data (none if the file does not
  exist) for all its parses, which take no file system. The absence of the file is not an
  error: the loader is returned, and a parse with it raises a LayoutException only if it
  has resolved an include or merge marker.
\<close>

theorem create_loader_reads_common_data_once:
  assumes "CreateYamlLoader files impl_path loaded = (res, loaded')"
  shows "(files (path_join (dirname impl_path) ''__init__.yaml'') = None \<longrightarrow>
            loaded' = loaded \<and> res = Inr (CommonLoader impl_path VNone)
            \<and> (\<forall>document m resolved.
                  construct_document (CommonLoader impl_path VNone) document []
                    = (Inl (LayoutException m), resolved) \<longrightarrow> resolved \<noteq> []))
       \<and> (\<forall>common_document.
            files (path_join (dirname impl_path) ''__init__.yaml'') = Some common_document \<longrightarrow>
              loaded' = loaded @ [path_join (dirname impl_path) ''__init__.yaml'']
              \<and> res = (case yaml_load PlainLoader common_document of
                         Inl e \<Rightarrow> Inl e
                       | Inr common_data \<Rightarrow> Inr (CommonLoader impl_path common_data)))"
proof (intro conjI impI allI)
  assume "files (path_join (dirname impl_path) ''__init__.yaml'') = None"
  with assms show "loaded' = loaded" and "res = Inr (CommonLoader impl_path VNone)"
    by (simp_all add: CreateYamlLoader_def Let_def)
next
  fix document m resolved
  assume "construct_document (CommonLoader impl_path VNone) document []
            = (Inl (LayoutException m), resolved)"
  then have "log_ok impl_path VNone (Inl (LayoutException m) :: error + pyval) [] resolved"
    by (rule construct_document_log)
  then show "resolved \<noteq> []" unfolding log_ok_def by auto
next
  fix common_document
  assume "files (path_join (dirname impl_path) ''__init__.yaml'') = Some common_document"
  with assms show "loaded' = loaded @ [path_join (dirname impl_path) ''__init__.yaml'']"
    and "res = (case yaml_load PlainLoader common_document of
                         Inl e \<Rightarrow> Inl e
                       | Inr common_data \<Rightarrow> Inr (CommonLoader impl_path common_data))"
    by (auto simp: CreateYamlLoader_def Let_def split: sum.splits)
qed

theorem create_loader_reads_common_data_once_witness:
  "CreateYamlLoader
     (map_of [(''surface/__init__.yaml'',
               MappingNode [(PlainScalar (VStr ''foo''), PlainScalar (VStr ''x''))])])
     ''surface/run.yaml'' []
     = (Inr (CommonLoader ''surface/run.yaml'' (VDict [(VStr ''foo'', VStr ''x'')])),
        [''surface/__init__.yaml''])
   \<and> CreateYamlLoader
     (map_of [(''surface/__init__.yaml'',
               MappingNode [(PlainScalar (VStr ''foo''), PlainScalar (VStr ''x''))])])
     ''other/run.yaml'' []
     = (Inr (CommonLoader ''other/run.yaml'' VNone), [])"
proof -
  let ?files = "map_of [(''surface/__init__.yaml'',
               MappingNode [(PlainScalar (VStr ''foo''), PlainScalar (VStr ''x''))])]"
  obtain res1 l1 where c1: "CreateYamlLoader ?files ''surface/run.yaml'' [] = (res1, l1)"
    by (cases "CreateYamlLoader ?files ''surface/run.yaml'' []")
  obtain res2 l2 where c2: "CreateYamlLoader ?files ''other/run.yaml'' [] = (res2, l2)"
    by (cases "CreateYamlLoader ?files ''other/run.yaml'' []")
  have p1: "path_join (dirname ''surface/run.yaml'') ''__init__.yaml'' = ''surface/__init__.yaml''"
    by (simp add: dirname_def path_join_def)
  have p2: "path_join (dirname ''other/run.yaml'') ''__init__.yaml'' = ''other/__init__.yaml''"
    by (simp add: dirname_def path_join_def)
  have f1: "?files (path_join (dirname ''surface/run.yaml'') ''__init__.yaml'')
      = Some (MappingNode [(PlainScalar (VStr ''foo''), PlainScalar (VStr ''x''))])"
    unfolding p1 by simp
  have f2: "?files (path_join (dirname ''other/run.yaml'') ''__init__.yaml'') = None"
    unfolding p2 by simp
  from create_loader_reads_common_data_once [OF c1, THEN conjunct2, rule_format, OF f1]
  have "l1 = [''surface/__init__.yaml'']"
    and "res1 = Inr (CommonLoader ''surface/run.yaml'' (VDict [(VStr ''foo'', VStr ''x'')]))"
    unfolding p1 by (simp_all add: yaml_load_def construct_document_def lookup_from_def
        Let_def AList.update.simps)
  moreover
  from create_loader_reads_common_data_once [OF c2, THEN conjunct1, rule_format, OF f2]
  have "l2 = []" and "res2 = Inr (CommonLoader ''other/run.yaml'' VNone)"
    by simp_all
  ultimately show ?thesis using c1 c2 by simp
qed

end
